theory Spec2Isabelle
  imports Main
begin

section \<open>Go values used by the decoder\<close>

text \<open>
  The decoder is \<^verbatim>\<open>vendor/github.com/prometheus/procfs/mountstats.go\<close>.
  A Go \<^verbatim>\<open>string\<close> is a byte sequence: \<^typ>\<open>string\<close>. Go's \<^verbatim>\<open>int\<close> is
  modelled on a 64-bit platform: an \<^typ>\<open>int\<close> that \<^verbatim>\<open>strconv.Atoi\<close> keeps inside
  \<open>[-2^63, 2^63)\<close>. A \<^verbatim>\<open>time.Duration\<close> is an \<^verbatim>\<open>int64\<close> count of
  nanoseconds; its multiplication wraps around, which \<open>wrap64\<close> writes out.
\<close>

type_synonym Duration = int

definition wrap64 :: "int \<Rightarrow> int" where
  "wrap64 x = (x + 2 ^ 63) mod 2 ^ 64 - 2 ^ 63"

definition Millisecond :: Duration where
  "Millisecond = 1000000"

definition Second :: Duration where
  "Second = 1000000000"

text \<open>\<^verbatim>\<open>time.Duration(n) * unit\<close>, on \<^verbatim>\<open>int64\<close>.\<close>

definition mulDuration :: "int \<Rightarrow> Duration \<Rightarrow> Duration" where
  "mulDuration n unit = wrap64 (n * unit)"

subsection \<open>Errors and panics\<close>

datatype numerr = ErrSyntax | ErrRange

text \<open>
  One constructor per error the source builds: the \<^verbatim>\<open>fmt.Errorf\<close> calls (with the value
  they print), the \<^verbatim>\<open>*strconv.NumError\<close> of \<^verbatim>\<open>Atoi\<close>, the three errors of
  \<^verbatim>\<open>time.ParseDuration\<close>, and the scanner's \<^verbatim>\<open>s.Err()\<close>.
\<close>

datatype error =
    InvalidDeviceEntry "string list"
  | CannotParseFstype string
  | NotEnoughNFSInfo "string list"
  | NotEnoughTransportInfo "string list"
  | InvalidBytesStats "string list"
  | InvalidEventsStats "string list"
  | InvalidPerOpStats "string list"
  | InvalidTransport10 "string list"
  | InvalidTransport11 "string list"
  | UnrecognizedTransportVersion string
  | NumError string numerr
  | InvalidDuration string
  | MissingUnit string
  | UnknownUnit string string
  | ScanError string

text \<open>A run-time panic: an index expression \<^verbatim>\<open>xs[i]\<close> with \<open>i \<ge> len(xs)\<close>.\<close>

datatype panic = IndexOutOfRange nat nat

text \<open>
  What a Go function of result type \<^verbatim>\<open>(*T, error)\<close> does: it returns a value and a nil
  error, or nil and an error, or it panics.
\<close>

datatype 'a result = Ok 'a | Err error | Panic panic

text \<open>
  A Go expression that reads \<open>xs\<close> at the indices \<open>idxs\<close>, in this order, and builds
  \<open>v ()\<close> from what it read: the first read out of range panics, and nothing is built.
\<close>

definition checked :: "'a list \<Rightarrow> nat list \<Rightarrow> (unit \<Rightarrow> 'b) \<Rightarrow> 'b result" where
  "checked xs idxs v =
     (case find (\<lambda>i. \<not> i < length xs) idxs of
        Some i \<Rightarrow> Panic (IndexOutOfRange i (length xs))
      | None \<Rightarrow> Ok (v ()))"

subsection \<open>The \<^verbatim>\<open>strings\<close> package\<close>

definition asciiSpace :: "char \<Rightarrow> bool" where
  "asciiSpace c =
     (c = CHR 0x09 \<or> c = CHR 0x0A \<or> c = CHR 0x0B \<or> c = CHR 0x0C \<or> c = CHR 0x0D \<or> c = CHR 0x20)"

text \<open>
  The width in bytes of the white space rune (\<^verbatim>\<open>unicode.IsSpace\<close>) encoded at the
  head of the string, 0 when there is none: the six ASCII characters, U+0085, U+00A0,
  U+1680, U+2000 to U+200A, U+2028, U+2029, U+202F, U+205F and U+3000 in UTF-8.
\<close>

fun spaceWidth :: "string \<Rightarrow> nat" where
  "spaceWidth [] = 0"
| "spaceWidth (c # cs) =
     (if asciiSpace c then 1
      else if c = CHR 0xC2 then
        (case cs of d # _ \<Rightarrow> if d = CHR 0x85 \<or> d = CHR 0xA0 then 2 else 0 | _ \<Rightarrow> 0)
      else if c = CHR 0xE1 then
        (case cs of d # e # _ \<Rightarrow> if d = CHR 0x9A \<and> e = CHR 0x80 then 3 else 0 | _ \<Rightarrow> 0)
      else if c = CHR 0xE2 then
        (case cs of
           d # e # _ \<Rightarrow>
             if d = CHR 0x80 \<and>
                ((128 \<le> (of_char e :: int) \<and> (of_char e :: int) \<le> 138) \<or>
                 e = CHR 0xA8 \<or> e = CHR 0xA9 \<or> e = CHR 0xAF)
             then 3
             else if d = CHR 0x81 \<and> e = CHR 0x9F then 3 else 0
         | _ \<Rightarrow> 0)
      else if c = CHR 0xE3 then
        (case cs of d # e # _ \<Rightarrow> if d = CHR 0x80 \<and> e = CHR 0x80 then 3 else 0 | _ \<Rightarrow> 0)
      else 0)"

text \<open>
  \<^verbatim>\<open>strings.Fields\<close>: the maximal runs of bytes that belong to no white space rune.
  \<open>skip\<close> counts the bytes of a white space rune still to pass, \<open>cur\<close> is the field
  being read.
\<close>

fun FieldsLoop :: "nat \<Rightarrow> string \<Rightarrow> string \<Rightarrow> string list" where
  "FieldsLoop skip cur [] = (if cur = [] then [] else [cur])"
| "FieldsLoop skip cur (c # cs) =
     (if 0 < skip then FieldsLoop (skip - 1) cur cs
      else if 0 < spaceWidth (c # cs) then
        (if cur = [] then FieldsLoop (spaceWidth (c # cs) - 1) [] cs
         else cur # FieldsLoop (spaceWidth (c # cs) - 1) [] cs)
      else FieldsLoop 0 (cur @ [c]) cs)"

definition Fields :: "string \<Rightarrow> string list" where
  "Fields s = FieldsLoop 0 [] s"

definition HasPrefix :: "string \<Rightarrow> string \<Rightarrow> bool" where
  "HasPrefix s p = (length p \<le> length s \<and> take (length p) s = p)"

definition TrimPrefix :: "string \<Rightarrow> string \<Rightarrow> string" where
  "TrimPrefix s p = (if HasPrefix s p then drop (length p) s else s)"

definition HasSuffix :: "string \<Rightarrow> string \<Rightarrow> bool" where
  "HasSuffix s p = (length p \<le> length s \<and> drop (length s - length p) s = p)"

definition TrimSuffix :: "string \<Rightarrow> string \<Rightarrow> string" where
  "TrimSuffix s p = (if HasSuffix s p then take (length s - length p) s else s)"

subsection \<open>\<^verbatim>\<open>strconv.Atoi\<close>\<close>

text \<open>Numbers of type \<^verbatim>\<open>uint64\<close> are kept as non-negative \<^typ>\<open>int\<close>s.\<close>

definition isDigit :: "char \<Rightarrow> bool" where
  "isDigit c = (48 \<le> (of_char c :: int) \<and> (of_char c :: int) \<le> 57)"

definition digitVal :: "char \<Rightarrow> int" where
  "digitVal c = of_char c - 48"

text \<open>
  The loop of \<^verbatim>\<open>strconv.ParseUint(s, 10, 64)\<close>: a byte that is no decimal digit is a
  syntax error; a value past \<open>2^64 - 1\<close> is a range error.
\<close>

fun parseUintLoop :: "int \<Rightarrow> string \<Rightarrow> numerr + int" where
  "parseUintLoop n [] = Inr n"
| "parseUintLoop n (c # cs) =
     (if \<not> isDigit c then Inl ErrSyntax
      else if (2 ^ 64 - 1) div 10 + 1 \<le> n then Inl ErrRange
      else if 2 ^ 64 - 1 < n * 10 + digitVal c then Inl ErrRange
      else parseUintLoop (n * 10 + digitVal c) cs)"

definition ParseUint :: "string \<Rightarrow> numerr + int" where
  "ParseUint s = (if s = [] then Inl ErrSyntax else parseUintLoop 0 s)"

text \<open>
  \<^verbatim>\<open>strconv.ParseInt(s, 10, 0)\<close> with \<^verbatim>\<open>IntSize = 64\<close>: an optional sign, then
  \<^verbatim>\<open>ParseUint\<close>, whose range error comes with the value \<open>2^64 - 1\<close>.
\<close>

definition ParseInt :: "string \<Rightarrow> numerr + int" where
  "ParseInt s =
     (if s = [] then Inl ErrSyntax
      else
        let neg = (hd s = CHR ''-'');
            s1 = (if hd s = CHR ''+'' \<or> hd s = CHR ''-'' then tl s else s)
        in case ParseUint s1 of
             Inl ErrSyntax \<Rightarrow> Inl ErrSyntax
           | r \<Rightarrow>
               let un = (case r of Inr u \<Rightarrow> u | Inl _ \<Rightarrow> 2 ^ 64 - 1)
               in if \<not> neg \<and> 2 ^ 63 \<le> un then Inl ErrRange
                  else if neg \<and> 2 ^ 63 < un then Inl ErrRange
                  else Inr (if neg then - un else un))"

definition Atoi :: "string \<Rightarrow> error + int" where
  "Atoi s = (case ParseInt s of Inl k \<Rightarrow> Inl (NumError s k) | Inr n \<Rightarrow> Inr n)"

text \<open>
  The loop the four decoders share:
  \<^verbatim>\<open>for _, s := range ss { n, err := strconv.Atoi(s); if err != nil { return nil, err }; ns = append(ns, n) }\<close>.
\<close>

fun atoiLoop :: "string list \<Rightarrow> error + int list" where
  "atoiLoop [] = Inr []"
| "atoiLoop (s # ss) =
     (case Atoi s of
        Inl e \<Rightarrow> Inl e
      | Inr n \<Rightarrow> (case atoiLoop ss of Inl e \<Rightarrow> Inl e | Inr ns \<Rightarrow> Inr (n # ns)))"

section \<open>The data model\<close>

definition deviceEntryLen :: nat where
  "deviceEntryLen = 8"

definition fieldBytesLen :: nat where
  "fieldBytesLen = 8"

definition fieldEventsLen :: nat where
  "fieldEventsLen = 27"

definition statVersion10 :: string where
  "statVersion10 = ''1.0''"

definition statVersion11 :: string where
  "statVersion11 = ''1.1''"

definition fieldTransport10Len :: nat where
  "fieldTransport10Len = 10"

definition fieldTransport11Len :: nat where
  "fieldTransport11Len = 13"

record NFSBytesStats =
  Read :: int
  Write :: int
  DirectRead :: int
  DirectWrite :: int
  ReadTotal :: int
  WriteTotal :: int
  ReadPages :: int
  WritePages :: int

record NFSEventsStats =
  InodeRevalidate :: int
  DnodeRevalidate :: int
  DataInvalidate :: int
  AttributeInvalidate :: int
  VFSOpen :: int
  VFSLookup :: int
  VFSAccess :: int
  VFSUpdatePage :: int
  VFSReadPage :: int
  VFSReadPages :: int
  VFSWritePage :: int
  VFSWritePages :: int
  VFSGetdents :: int
  VFSSetattr :: int
  VFSFlush :: int
  VFSFsync :: int
  VFSLock :: int
  VFSFileRelease :: int
  CongestionWait :: int
  Truncation :: int
  WriteExtension :: int
  SillyRename :: int
  ShortRead :: int
  ShortWrite :: int
  JukeboxDelay :: int
  PNFSRead :: int
  PNFSWrite :: int

record NFSOperationStats =
  Operation :: string
  Requests :: int
  Transmissions :: int
  MajorTimeouts :: int
  BytesSent :: int
  BytesReceived :: int
  CumulativeQueueTime :: Duration
  CumulativeTotalResponseTime :: Duration
  CumulativeTotalRequestTime :: Duration

record NFSTransportStats =
  Port :: int
  Bind :: int
  Connect :: int
  ConnectIdleTime :: int
  IdleTime :: Duration
  Sends :: int
  Receives :: int
  BadTransactionIDs :: int
  CumulativeActiveRequests :: int
  CumulativeBacklog :: int
  MaximumRPCSlotsUsed :: int
  CumulativeSendingQueue :: int
  CumulativePendingQueue :: int

record MountStatsNFS =
  StatVersion :: string
  Age :: Duration
  Bytes :: NFSBytesStats
  Events :: NFSEventsStats
  Operations :: "NFSOperationStats list"
  Transport :: NFSTransportStats

text \<open>
  \<^verbatim>\<open>Stats\<close> is an interface value with one implementation, \<^verbatim>\<open>MountStatsNFS\<close>;
  \<open>None\<close> is the nil interface.
\<close>

record Mount =
  Device :: string
  Mount :: string
  Type :: string
  Stats :: "MountStatsNFS option"

section \<open>The device line\<close>

definition format :: "(nat \<times> string) list" where
  "format = [(0, ''device''), (2, ''mounted''), (3, ''on''), (5, ''with''), (6, ''fstype'')]"

text \<open>
  \<^verbatim>\<open>parseMount\<close>. Every index it reads is below \<open>deviceEntryLen\<close>, which the first
  test has compared with the length.
\<close>

definition parseMount :: "string list \<Rightarrow> Mount result" where
  "parseMount ss =
     (if length ss < deviceEntryLen then Err (InvalidDeviceEntry ss)
      else if list_ex (\<lambda>(i, s). ss ! i \<noteq> s) format then Err (InvalidDeviceEntry ss)
      else Ok \<lparr>Device = ss ! 1, Mount = ss ! 4, Type = ss ! 7, Stats = None\<rparr>)"

section \<open>The field group decoders\<close>

definition parseNFSBytesStats :: "string list \<Rightarrow> NFSBytesStats result" where
  "parseNFSBytesStats ss =
     (if length ss \<noteq> fieldBytesLen then Err (InvalidBytesStats ss)
      else case atoiLoop ss of
        Inl e \<Rightarrow> Err e
      | Inr ns \<Rightarrow>
          checked ns [0..<8]
            (\<lambda>_. \<lparr>Read = ns ! 0, Write = ns ! 1, DirectRead = ns ! 2, DirectWrite = ns ! 3,
             ReadTotal = ns ! 4, WriteTotal = ns ! 5, ReadPages = ns ! 6, WritePages = ns ! 7\<rparr>))"

definition parseNFSEventsStats :: "string list \<Rightarrow> NFSEventsStats result" where
  "parseNFSEventsStats ss =
     (if length ss \<noteq> fieldEventsLen then Err (InvalidEventsStats ss)
      else case atoiLoop ss of
        Inl e \<Rightarrow> Err e
      | Inr ns \<Rightarrow>
          checked ns [0..<27]
            (\<lambda>_. \<lparr>InodeRevalidate = ns ! 0, DnodeRevalidate = ns ! 1, DataInvalidate = ns ! 2,
             AttributeInvalidate = ns ! 3, VFSOpen = ns ! 4, VFSLookup = ns ! 5,
             VFSAccess = ns ! 6, VFSUpdatePage = ns ! 7, VFSReadPage = ns ! 8,
             VFSReadPages = ns ! 9, VFSWritePage = ns ! 10, VFSWritePages = ns ! 11,
             VFSGetdents = ns ! 12, VFSSetattr = ns ! 13, VFSFlush = ns ! 14,
             VFSFsync = ns ! 15, VFSLock = ns ! 16, VFSFileRelease = ns ! 17,
             CongestionWait = ns ! 18, Truncation = ns ! 19, WriteExtension = ns ! 20,
             SillyRename = ns ! 21, ShortRead = ns ! 22, ShortWrite = ns ! 23,
             JukeboxDelay = ns ! 24, PNFSRead = ns ! 25, PNFSWrite = ns ! 26\<rparr>))"

text \<open>
  \<^verbatim>\<open>parseNFSTransportStats\<close>. The slice \<^verbatim>\<open>ns\<close> is made with length 0 and capacity
  \<open>fieldTransport11Len\<close> and grows by one \<^verbatim>\<open>append\<close> per token, so its length is the
  number of tokens; the composite literal then reads \<^verbatim>\<open>ns[0]\<close> to \<^verbatim>\<open>ns[12]\<close>.
\<close>

definition parseNFSTransportStats :: "string list \<Rightarrow> string \<Rightarrow> NFSTransportStats result" where
  "parseNFSTransportStats ss statVersion =
     (if statVersion = statVersion10 \<and> length ss \<noteq> fieldTransport10Len
        then Err (InvalidTransport10 ss)
      else if statVersion = statVersion11 \<and> length ss \<noteq> fieldTransport11Len
        then Err (InvalidTransport11 ss)
      else if statVersion \<noteq> statVersion10 \<and> statVersion \<noteq> statVersion11
        then Err (UnrecognizedTransportVersion statVersion)
      else case atoiLoop ss of
        Inl e \<Rightarrow> Err e
      | Inr ns \<Rightarrow>
          checked ns [0..<13]
            (\<lambda>_. \<lparr>Port = ns ! 0, Bind = ns ! 1, Connect = ns ! 2, ConnectIdleTime = ns ! 3,
             IdleTime = mulDuration (ns ! 4) Second, Sends = ns ! 5, Receives = ns ! 6,
             BadTransactionIDs = ns ! 7, CumulativeActiveRequests = ns ! 8,
             CumulativeBacklog = ns ! 9, MaximumRPCSlotsUsed = ns ! 10,
             CumulativeSendingQueue = ns ! 11, CumulativePendingQueue = ns ! 12\<rparr>))"

section \<open>\<^verbatim>\<open>time.ParseDuration\<close>\<close>

text \<open>
  The \<^verbatim>\<open>age:\<close> line is decoded by \<^verbatim>\<open>time.ParseDuration(ss[1] + "s")\<close>, which reads
  \<^verbatim>\<open>[-+]?([0-9]*(\.[0-9]*)?[a-z]+)+\<close>. The model follows the function of Go's
  \<^verbatim>\<open>time\<close> package statement by statement, on \<^verbatim>\<open>uint64\<close> values written as
  non-negative integers, with the wrap-around of \<^verbatim>\<open>d += v\<close> written out. One step
  is floating point: the nanoseconds of a fraction,
  \<^verbatim>\<open>uint64(float64(f) * (float64(unit) / scale))\<close>. It is the parameter \<open>fr\<close> of the
  model, applied to \<open>f\<close>, the number of digits \<open>k\<close> with \<open>scale = 10^k\<close>, and the
  unit; every theorem below holds whatever \<open>fr\<close> is.
\<close>

type_synonym frac = "int \<Rightarrow> nat \<Rightarrow> int \<Rightarrow> int"

definition unitMap :: "string \<Rightarrow> int option" where
  "unitMap u =
     (if u = ''ns'' then Some 1
      else if u = ''us'' then Some 1000
      else if u = [CHR 0xC2, CHR 0xB5, CHR ''s''] then Some 1000
      else if u = [CHR 0xCE, CHR 0xBC, CHR ''s''] then Some 1000
      else if u = ''ms'' then Some 1000000
      else if u = ''s'' then Some 1000000000
      else if u = ''m'' then Some 60000000000
      else if u = ''h'' then Some 3600000000000
      else None)"

text \<open>\<^verbatim>\<open>leadingInt\<close>: the leading \<^verbatim>\<open>[0-9]*\<close>; \<open>None\<close> is its overflow error.\<close>

fun leadingInt :: "int \<Rightarrow> string \<Rightarrow> (int \<times> string) option" where
  "leadingInt x [] = Some (x, [])"
| "leadingInt x (c # cs) =
     (if \<not> isDigit c then Some (x, c # cs)
      else if 2 ^ 63 div 10 < x then None
      else if 2 ^ 63 < x * 10 + digitVal c then None
      else leadingInt (x * 10 + digitVal c) cs)"

text \<open>
  \<^verbatim>\<open>leadingFraction\<close>: the leading \<^verbatim>\<open>[0-9]*\<close> of a fraction; on overflow it stops
  accumulating and still consumes the digits.
\<close>

fun leadingFraction :: "int \<Rightarrow> nat \<Rightarrow> bool \<Rightarrow> string \<Rightarrow> int \<times> nat \<times> string" where
  "leadingFraction x k overflow [] = (x, k, [])"
| "leadingFraction x k overflow (c # cs) =
     (if \<not> isDigit c then (x, k, c # cs)
      else if overflow then leadingFraction x k True cs
      else if (2 ^ 63 - 1) div 10 < x then leadingFraction x k True cs
      else if 2 ^ 63 < x * 10 + digitVal c then leadingFraction x k True cs
      else leadingFraction (x * 10 + digitVal c) (Suc k) False cs)"

definition unitChar :: "char \<Rightarrow> bool" where
  "unitChar c = (\<not> (c = CHR ''.'' \<or> isDigit c))"

lemma leadingInt_length: "leadingInt x s = Some (v, r) \<Longrightarrow> length r \<le> length s"
  by (induction x s rule: leadingInt.induct) (auto split: if_splits)

lemma leadingFraction_length: "leadingFraction x k ov s = (f, k', r) \<Longrightarrow> length r \<le> length s"
  by (induction x k ov s rule: leadingFraction.induct) (auto split: if_splits)

lemma durLoop_shorter:
  assumes "leadingInt 0 s = Some x2" and "(v, s1) = x2"
    and "(f, y) =
      (if s1 \<noteq> [] \<and> hd s1 = CHR ''.'' then leadingFraction 0 0 False (tl s1) else (0, 0, s1))"
    and "(k, s2) = y"
    and "takeWhile unitChar s2 \<noteq> []"
  shows "length (dropWhile unitChar s2) < length s"
proof -
  from assms(1,2) have l1: "length s1 \<le> length s"
    using leadingInt_length [of 0 s v s1] by simp
  have "length s2 \<le> length s1"
  proof (cases "s1 \<noteq> [] \<and> hd s1 = CHR ''.''")
    case True
    with assms(3,4) have "leadingFraction 0 0 False (tl s1) = (f, k, s2)"
      by auto
    then have "length s2 \<le> length (tl s1)"
      by (rule leadingFraction_length)
    then show ?thesis
      by simp
  next
    case False
    with assms(3,4) show ?thesis
      by auto
  qed
  moreover from assms(5) have "length (dropWhile unitChar s2) < length s2"
    by (cases s2) (auto simp: le_imp_less_Suc length_dropWhile_le split: if_splits)
  ultimately show ?thesis
    using l1 by simp
qed

text \<open>The \<^verbatim>\<open>for s != ""\<close> loop of \<^verbatim>\<open>ParseDuration\<close>: one number and its unit each time round.\<close>

function durLoop :: "frac \<Rightarrow> string \<Rightarrow> int \<Rightarrow> string \<Rightarrow> error + int" where
  "durLoop fr orig d s =
     (if s = [] then Inr d
      else if \<not> (hd s = CHR ''.'' \<or> isDigit (hd s)) then Inl (InvalidDuration orig)
      else case leadingInt 0 s of
        None \<Rightarrow> Inl (InvalidDuration orig)
      | Some (v, s1) \<Rightarrow>
          (case (if s1 \<noteq> [] \<and> hd s1 = CHR ''.'' then leadingFraction 0 0 False (tl s1)
                 else (0, 0, s1)) of
             (f, k, s2) \<Rightarrow>
               if length s = length s1 \<and>
                  \<not> (s1 \<noteq> [] \<and> hd s1 = CHR ''.'' \<and> length (tl s1) \<noteq> length s2)
               then Inl (InvalidDuration orig)
               else if takeWhile unitChar s2 = [] then Inl (MissingUnit orig)
               else case unitMap (takeWhile unitChar s2) of
                 None \<Rightarrow> Inl (UnknownUnit (takeWhile unitChar s2) orig)
               | Some unit \<Rightarrow>
                   if 2 ^ 63 div unit < v then Inl (InvalidDuration orig)
                   else if 0 < f \<and> 2 ^ 63 < (v * unit + fr f k unit) mod 2 ^ 64
                     then Inl (InvalidDuration orig)
                   else if 2 ^ 63 <
                       (d + (if 0 < f then (v * unit + fr f k unit) mod 2 ^ 64 else v * unit))
                         mod 2 ^ 64
                     then Inl (InvalidDuration orig)
                   else durLoop fr orig
                       ((d + (if 0 < f then (v * unit + fr f k unit) mod 2 ^ 64 else v * unit))
                          mod 2 ^ 64)
                       (dropWhile unitChar s2)))"
  by pat_completeness auto
termination
  apply (relation "measure (\<lambda>(fr, orig, d, s). length s)")
   apply simp
  apply (simp only: in_measure prod.case)
  apply (rule durLoop_shorter; assumption)
  done

declare durLoop.simps [simp del]

definition ParseDuration :: "frac \<Rightarrow> string \<Rightarrow> error + Duration" where
  "ParseDuration fr s0 =
     (let neg = (s0 \<noteq> [] \<and> hd s0 = CHR ''-'');
          s = (if s0 \<noteq> [] \<and> (hd s0 = CHR ''-'' \<or> hd s0 = CHR ''+'') then tl s0 else s0)
      in if s = ''0'' then Inr 0
         else if s = [] then Inl (InvalidDuration s0)
         else case durLoop fr s0 0 s of
           Inl e \<Rightarrow> Inl e
         | Inr d \<Rightarrow>
             if neg then Inr (- d)
             else if 2 ^ 63 - 1 < d then Inl (InvalidDuration s0)
             else Inr d)"

section \<open>The line scanner\<close>

text \<open>
  A \<^verbatim>\<open>bufio.Scanner\<close> over the input. \<open>pending\<close> holds the lines \<^verbatim>\<open>Scan\<close> will still
  deliver; with each line comes the error the reader has met by the time the line is
  delivered, if any (the scanner still hands out the lines it has buffered). \<open>final\<close> is
  the error met when \<^verbatim>\<open>Scan\<close> finds no further line (\<open>None\<close>: a clean end of input),
  and \<open>err\<close> is what \<^verbatim>\<open>s.Err()\<close> holds now: the first error met, kept from then on.
\<close>

record Scanner =
  pending :: "(string \<times> string option) list"
  final :: "string option"
  err :: "string option"

definition sticky :: "string option \<Rightarrow> string option \<Rightarrow> string option" where
  "sticky old new = (case old of Some e \<Rightarrow> Some e | None \<Rightarrow> new)"

text \<open>\<^verbatim>\<open>s.Scan()\<close>: the line of \<^verbatim>\<open>s.Bytes()\<close> when it returns true, and the scanner after the call.\<close>

definition Scan :: "Scanner \<Rightarrow> string option \<times> Scanner" where
  "Scan s =
     (case pending s of
        [] \<Rightarrow> (None, s\<lparr>err := sticky (err s) (final s)\<rparr>)
      | (line, e) # rest \<Rightarrow> (Some line, s\<lparr>pending := rest, err := sticky (err s) e\<rparr>))"

text \<open>\<^verbatim>\<open>s.Err()\<close>.\<close>

definition ScanErr :: "Scanner \<Rightarrow> error option" where
  "ScanErr s = map_option ScanError (err s)"

text \<open>
  \<^verbatim>\<open>bufio.NewScanner(r)\<close> for a reader that delivers \<open>lines\<close> and then ends with
  \<open>fin\<close>, its error showing only once the lines are used up.
\<close>

definition NewScanner :: "string list \<Rightarrow> string option \<Rightarrow> Scanner" where
  "NewScanner lines fin = \<lparr>pending = map (\<lambda>l. (l, None)) lines, final = fin, err = None\<rparr>"

lemma Scan_shorter: "Scan s = (Some line, s') \<Longrightarrow> length (pending s') < length (pending s)"
  by (auto simp: Scan_def split: list.splits)

lemma Scan_shorter2:
  "(Some line, s') = Scan s \<Longrightarrow> length (pending s') < length (pending s)"
  using Scan_shorter [of s line s'] by simp

lemma Scan_not_longer: "length (pending (snd (Scan s))) \<le> length (pending s)"
  by (auto simp: Scan_def split: list.splits)

section \<open>The per-operation block\<close>

definition numFields :: nat where
  "numFields = 9"

text \<open>
  The \<^verbatim>\<open>for s.Scan()\<close> loop of \<^verbatim>\<open>parseNFSOperationStats\<close> with the slice \<^verbatim>\<open>ops\<close> it
  appends to, and the function's two results: the slice and the error. A line of nine
  tokens gives eight integers, so the reads \<^verbatim>\<open>ns[0]\<close> to \<^verbatim>\<open>ns[7]\<close> are in range.
\<close>

function opsLoop ::
  "Scanner \<Rightarrow> NFSOperationStats list \<Rightarrow> (NFSOperationStats list \<times> error option) \<times> Scanner" where
  "opsLoop s ops =
     (case Scan s of
        (None, s') \<Rightarrow> ((ops, ScanErr s'), s')
      | (Some line, s') \<Rightarrow>
          if length (Fields line) = 0 then ((ops, ScanErr s'), s')
          else if length (Fields line) \<noteq> numFields
            then (([], Some (InvalidPerOpStats (Fields line))), s')
          else case atoiLoop (tl (Fields line)) of
            Inl e \<Rightarrow> (([], Some e), s')
          | Inr ns \<Rightarrow>
              opsLoop s'
                (ops @
                 [\<lparr>Operation = TrimSuffix (Fields line ! 0) '':'',
                   Requests = ns ! 0,
                   Transmissions = ns ! 1,
                   MajorTimeouts = ns ! 2,
                   BytesSent = ns ! 3,
                   BytesReceived = ns ! 4,
                   CumulativeQueueTime = mulDuration (ns ! 5) Millisecond,
                   CumulativeTotalResponseTime = mulDuration (ns ! 6) Millisecond,
                   CumulativeTotalRequestTime = mulDuration (ns ! 7) Millisecond\<rparr>]))"
  by pat_completeness auto
termination
  apply (relation "measure (\<lambda>(s, ops). length (pending s))")
   apply simp
  apply (simp only: in_measure prod.case)
  apply (erule Scan_shorter2)
  done

declare opsLoop.simps [simp del]

definition parseNFSOperationStats ::
  "Scanner \<Rightarrow> (NFSOperationStats list \<times> error option) \<times> Scanner" where
  "parseNFSOperationStats s = opsLoop s []"

section \<open>The statistics block\<close>

definition fieldAge :: string where
  "fieldAge = ''age:''"

definition fieldBytes :: string where
  "fieldBytes = ''bytes:''"

definition fieldEvents :: string where
  "fieldEvents = ''events:''"

definition fieldPerOpStats :: string where
  "fieldPerOpStats = ''per-op''"

definition fieldTransport :: string where
  "fieldTransport = ''xprt:''"

text \<open>
  The \<^verbatim>\<open>switch ss[0]\<close> of \<^verbatim>\<open>parseMountStatsNFS\<close>, on a line of at least two tokens:
  the statistics after the line, or the error (or panic) the function ends with.
\<close>

definition statsSwitch :: "frac \<Rightarrow> string \<Rightarrow> string list \<Rightarrow> MountStatsNFS \<Rightarrow> MountStatsNFS result" where
  "statsSwitch fr statVersion ss stats =
     (if ss ! 0 = fieldAge then
        (case ParseDuration fr (ss ! 1 @ ''s'') of
           Inl e \<Rightarrow> Err e
         | Inr d \<Rightarrow> Ok (stats\<lparr>Age := d\<rparr>))
      else if ss ! 0 = fieldBytes then
        (case parseNFSBytesStats (drop 1 ss) of
           Ok bstats \<Rightarrow> Ok (stats\<lparr>Bytes := bstats\<rparr>)
         | Err e \<Rightarrow> Err e
         | Panic p \<Rightarrow> Panic p)
      else if ss ! 0 = fieldEvents then
        (case parseNFSEventsStats (drop 1 ss) of
           Ok estats \<Rightarrow> Ok (stats\<lparr>Events := estats\<rparr>)
         | Err e \<Rightarrow> Err e
         | Panic p \<Rightarrow> Panic p)
      else if ss ! 0 = fieldTransport then
        (if length ss < 3 then Err (NotEnoughTransportInfo ss)
         else case parseNFSTransportStats (drop 2 ss) statVersion of
           Ok tstats \<Rightarrow> Ok (stats\<lparr>Transport := tstats\<rparr>)
         | Err e \<Rightarrow> Err e
         | Panic p \<Rightarrow> Panic p)
      else Ok stats)"

text \<open>
  The first \<^verbatim>\<open>for s.Scan()\<close> loop of \<^verbatim>\<open>parseMountStatsNFS\<close>: \<open>Ok\<close> with the statistics
  read so far when the loop is left (by a \<^verbatim>\<open>break\<close> or because \<^verbatim>\<open>Scan\<close> returned
  false), an error or a panic when the function returns from inside the loop.
\<close>

function statsLoop ::
  "frac \<Rightarrow> string \<Rightarrow> Scanner \<Rightarrow> MountStatsNFS \<Rightarrow> MountStatsNFS result \<times> Scanner" where
  "statsLoop fr statVersion s stats =
     (case Scan s of
        (None, s') \<Rightarrow> (Ok stats, s')
      | (Some line, s') \<Rightarrow>
          if length (Fields line) = 0 then (Ok stats, s')
          else if length (Fields line) < 2 then (Err (NotEnoughNFSInfo (Fields line)), s')
          else case statsSwitch fr statVersion (Fields line) stats of
            Err e \<Rightarrow> (Err e, s')
          | Panic p \<Rightarrow> (Panic p, s')
          | Ok stats' \<Rightarrow>
              if Fields line ! 0 = fieldPerOpStats then (Ok stats', s')
              else statsLoop fr statVersion s' stats')"
  by pat_completeness auto
termination
  apply (relation "measure (\<lambda>(fr, statVersion, s, stats). length (pending s))")
   apply simp
  apply (simp only: in_measure prod.case)
  apply (erule Scan_shorter2)
  done

declare statsLoop.simps [simp del]

text \<open>The zero values of the Go structs.\<close>

definition zeroBytes :: NFSBytesStats where
  "zeroBytes =
     \<lparr>Read = 0, Write = 0, DirectRead = 0, DirectWrite = 0, ReadTotal = 0, WriteTotal = 0,
      ReadPages = 0, WritePages = 0\<rparr>"

definition zeroEvents :: NFSEventsStats where
  "zeroEvents =
     \<lparr>InodeRevalidate = 0, DnodeRevalidate = 0, DataInvalidate = 0, AttributeInvalidate = 0,
      VFSOpen = 0, VFSLookup = 0, VFSAccess = 0, VFSUpdatePage = 0, VFSReadPage = 0,
      VFSReadPages = 0, VFSWritePage = 0, VFSWritePages = 0, VFSGetdents = 0, VFSSetattr = 0,
      VFSFlush = 0, VFSFsync = 0, VFSLock = 0, VFSFileRelease = 0, CongestionWait = 0,
      Truncation = 0, WriteExtension = 0, SillyRename = 0, ShortRead = 0, ShortWrite = 0,
      JukeboxDelay = 0, PNFSRead = 0, PNFSWrite = 0\<rparr>"

definition zeroTransport :: NFSTransportStats where
  "zeroTransport =
     \<lparr>Port = 0, Bind = 0, Connect = 0, ConnectIdleTime = 0, IdleTime = 0, Sends = 0,
      Receives = 0, BadTransactionIDs = 0, CumulativeActiveRequests = 0, CumulativeBacklog = 0,
      MaximumRPCSlotsUsed = 0, CumulativeSendingQueue = 0, CumulativePendingQueue = 0\<rparr>"

text \<open>\<^verbatim>\<open>&MountStatsNFS{StatVersion: statVersion}\<close>.\<close>

definition newStats :: "string \<Rightarrow> MountStatsNFS" where
  "newStats statVersion =
     \<lparr>StatVersion = statVersion, Age = 0, Bytes = zeroBytes, Events = zeroEvents,
      Operations = [], Transport = zeroTransport\<rparr>"

definition parseMountStatsNFS ::
  "frac \<Rightarrow> Scanner \<Rightarrow> string \<Rightarrow> MountStatsNFS result \<times> Scanner" where
  "parseMountStatsNFS fr s statVersion =
     (case statsLoop fr statVersion s (newStats statVersion) of
        (Err e, s') \<Rightarrow> (Err e, s')
      | (Panic p, s') \<Rightarrow> (Panic p, s')
      | (Ok stats, s') \<Rightarrow>
          (case ScanErr s' of
             Some e \<Rightarrow> (Err e, s')
           | None \<Rightarrow>
               (case parseNFSOperationStats s' of
                  ((perOpStats, Some e), s'') \<Rightarrow> (Err e, s'')
                | ((perOpStats, None), s'') \<Rightarrow> (Ok (stats\<lparr>Operations := perOpStats\<rparr>), s''))))"

section \<open>The top-level driver\<close>

definition device :: string where
  "device = ''device''"

definition statVersionPrefix :: string where
  "statVersionPrefix = ''statvers=''"

definition nfs3Type :: string where
  "nfs3Type = ''nfs''"

definition nfs4Type :: string where
  "nfs4Type = ''nfs4''"

lemma opsLoop_not_longer: "length (pending (snd (opsLoop s ops))) \<le> length (pending s)"
proof (induction s ops rule: opsLoop.induct)
  case (1 s ops)
  show ?case
  proof (cases "Scan s")
    case (Pair l s')
    have le: "length (pending s') \<le> length (pending s)"
      using Scan_not_longer [of s] Pair by simp
    show ?thesis
    proof (cases l)
      case None
      with Pair le show ?thesis
        by (subst opsLoop.simps) simp
    next
      case (Some line)
      show ?thesis
      proof (cases "atoiLoop (tl (Fields line))")
        case (Inl e)
        with Pair Some le show ?thesis
          by (subst opsLoop.simps) simp
      next
        case (Inr ns)
        show ?thesis
        proof (cases "length (Fields line) = 0 \<or> length (Fields line) \<noteq> numFields")
          case True
          with Pair Some Inr le show ?thesis
            by (subst opsLoop.simps) auto
        next
          case False
          with "1.IH" [OF Pair [symmetric] Some] Pair Some Inr
          have "length (pending (snd (opsLoop s ops))) \<le> length (pending s')"
            by (subst opsLoop.simps) simp
          with le show ?thesis
            by simp
        qed
      qed
    qed
  qed
qed

lemma statsLoop_not_longer:
  "length (pending (snd (statsLoop fr v s stats))) \<le> length (pending s)"
proof (induction fr v s stats rule: statsLoop.induct)
  case (1 fr v s stats)
  show ?case
  proof (cases "Scan s")
    case (Pair l s')
    have le: "length (pending s') \<le> length (pending s)"
      using Scan_not_longer [of s] Pair by simp
    show ?thesis
    proof (cases l)
      case None
      with Pair le show ?thesis
        by (subst statsLoop.simps) simp
    next
      case (Some line)
      show ?thesis
      proof (cases "statsSwitch fr v (Fields line) stats")
        case (Err e)
        with Pair Some le show ?thesis
          by (subst statsLoop.simps) simp
      next
        case (Panic p)
        with Pair Some le show ?thesis
          by (subst statsLoop.simps) simp
      next
        case (Ok stats')
        show ?thesis
        proof (cases "length (Fields line) = 0 \<or> length (Fields line) < 2 \<or>
            Fields line ! 0 = fieldPerOpStats")
          case True
          with Pair Some Ok le show ?thesis
            by (subst statsLoop.simps) auto
        next
          case False
          with "1.IH" [OF Pair [symmetric] Some] Pair Some Ok
          have "length (pending (snd (statsLoop fr v s stats))) \<le> length (pending s')"
            by (subst statsLoop.simps) simp
          with le show ?thesis
            by simp
        qed
      qed
    qed
  qed
qed

lemma parseMountStatsNFS_not_longer:
  "length (pending (snd (parseMountStatsNFS fr s v))) \<le> length (pending s)"
proof -
  obtain r s' where sl: "statsLoop fr v s (newStats v) = (r, s')"
    by (cases "statsLoop fr v s (newStats v)")
  then have le: "length (pending s') \<le> length (pending s)"
    using statsLoop_not_longer [of fr v s "newStats v"] by simp
  obtain q s'' where ol: "opsLoop s' [] = (q, s'')"
    by (cases "opsLoop s' []")
  then have le2: "length (pending s'') \<le> length (pending s')"
    using opsLoop_not_longer [of s' "[]"] by simp
  from sl ol le le2 show ?thesis
    by (auto simp: parseMountStatsNFS_def parseNFSOperationStats_def
        split: result.splits option.splits prod.splits)
qed

lemma parseMountStatsNFS_shorter:
  assumes "(Some line, s') = Scan s" and "(r, s'') = parseMountStatsNFS fr s' v"
  shows "length (pending s'') < length (pending s)"
proof -
  have "length (pending s'') \<le> length (pending s')"
    using parseMountStatsNFS_not_longer [of fr s' v] assms(2) [symmetric] by simp
  with Scan_shorter2 [OF assms(1)] show ?thesis
    by simp
qed

text \<open>
  The \<^verbatim>\<open>for s.Scan()\<close> loop of \<^verbatim>\<open>parseMountStats\<close> with the slice \<^verbatim>\<open>mounts\<close> it appends
  to. The function returns the slice and the error, \<^verbatim>\<open>Inr (mounts, err)\<close>, or it panics.
\<close>

function mountsLoop ::
  "frac \<Rightarrow> Scanner \<Rightarrow> Mount list \<Rightarrow> panic + (Mount list \<times> error option)" where
  "mountsLoop fr s mounts =
     (case Scan s of
        (None, s') \<Rightarrow> Inr (mounts, ScanErr s')
      | (Some line, s') \<Rightarrow>
          if length (Fields line) = 0 \<or> Fields line ! 0 \<noteq> device then mountsLoop fr s' mounts
          else case parseMount (Fields line) of
            Err e \<Rightarrow> Inr ([], Some e)
          | Panic p \<Rightarrow> Inl p
          | Ok m \<Rightarrow>
              if deviceEntryLen < length (Fields line) then
                if Type m \<noteq> nfs3Type \<and> Type m \<noteq> nfs4Type
                  then Inr ([], Some (CannotParseFstype (Type m)))
                else case parseMountStatsNFS fr s'
                            (TrimPrefix (Fields line ! 8) statVersionPrefix) of
                  (Err e, s'') \<Rightarrow> Inr ([], Some e)
                | (Panic p, s'') \<Rightarrow> Inl p
                | (Ok stats, s'') \<Rightarrow> mountsLoop fr s'' (mounts @ [m\<lparr>Stats := Some stats\<rparr>])
              else mountsLoop fr s' (mounts @ [m]))"
  by pat_completeness auto
termination
  apply (relation "measure (\<lambda>(fr, s, mounts). length (pending s))")
     apply simp
    apply (simp only: in_measure prod.case)
    apply (erule Scan_shorter2)
   apply (simp only: in_measure prod.case)
   apply (erule parseMountStatsNFS_shorter)
   apply assumption
  apply (simp only: in_measure prod.case)
  apply (erule Scan_shorter2)
  done

declare mountsLoop.simps [simp del]

text \<open>\<^verbatim>\<open>parseMountStats(r)\<close>, on the scanner \<^verbatim>\<open>bufio.NewScanner(r)\<close>.\<close>

definition parseMountStats :: "frac \<Rightarrow> Scanner \<Rightarrow> panic + (Mount list \<times> error option)" where
  "parseMountStats fr s = mountsLoop fr s []"

section \<open>Notions used in the properties\<close>

text \<open>
  The value of a string of decimal digits, most significant digit first, as \<^verbatim>\<open>Atoi\<close> and
  \<^verbatim>\<open>leadingInt\<close> accumulate it.
\<close>

fun decimalFrom :: "int \<Rightarrow> string \<Rightarrow> int" where
  "decimalFrom a [] = a"
| "decimalFrom a (c # cs) = decimalFrom (a * 10 + digitVal c) cs"

definition decimal :: "string \<Rightarrow> int" where
  "decimal ds = decimalFrom 0 ds"

text \<open>The scanner after \<open>n\<close> more calls of \<^verbatim>\<open>Scan\<close>.\<close>

primrec skipLines :: "nat \<Rightarrow> Scanner \<Rightarrow> Scanner" where
  "skipLines 0 s = s"
| "skipLines (Suc n) s = skipLines n (snd (Scan s))"

text \<open>A per-operation line: nine tokens, the last eight of them integer tokens.\<close>

definition opLine :: "string \<Rightarrow> bool" where
  "opLine l =
     (length (Fields l) = 9 \<and> (case atoiLoop (tl (Fields l)) of Inr _ \<Rightarrow> True | Inl _ \<Rightarrow> False))"

text \<open>
  The record \<open>r\<close> decodes the tokens \<open>ss\<close> of a per-operation line: its name is token 0
  without a trailing colon, its five counters are the values of the tokens 1 to 5, and its
  three durations are the values of the tokens 6 to 8 multiplied by \<^verbatim>\<open>time.Millisecond\<close>.
\<close>

definition opDecoded :: "string list \<Rightarrow> NFSOperationStats \<Rightarrow> bool" where
  "opDecoded ss r =
     (Operation r = TrimSuffix (ss ! 0) '':'' \<and>
      Atoi (ss ! 1) = Inr (Requests r) \<and>
      Atoi (ss ! 2) = Inr (Transmissions r) \<and>
      Atoi (ss ! 3) = Inr (MajorTimeouts r) \<and>
      Atoi (ss ! 4) = Inr (BytesSent r) \<and>
      Atoi (ss ! 5) = Inr (BytesReceived r) \<and>
      map_sum id (\<lambda>n. mulDuration n Millisecond) (Atoi (ss ! 6)) = Inr (CumulativeQueueTime r) \<and>
      map_sum id (\<lambda>n. mulDuration n Millisecond) (Atoi (ss ! 7)) =
        Inr (CumulativeTotalResponseTime r) \<and>
      map_sum id (\<lambda>n. mulDuration n Millisecond) (Atoi (ss ! 8)) =
        Inr (CumulativeTotalRequestTime r))"

text \<open>The next \<^verbatim>\<open>Scan\<close> returns false or delivers a blank line.\<close>

definition blockEnd :: "Scanner \<Rightarrow> bool" where
  "blockEnd s = (case fst (Scan s) of None \<Rightarrow> True | Some line \<Rightarrow> Fields line = [])"

text \<open>
  A line the first loop of \<^verbatim>\<open>parseMountStatsNFS\<close> passes: at least two tokens, not the
  per-operation marker, and decoded by the switch without error.
\<close>

definition statLine :: "frac \<Rightarrow> string \<Rightarrow> string \<Rightarrow> bool" where
  "statLine fr v l =
     (2 \<le> length (Fields l) \<and> Fields l ! 0 \<noteq> fieldPerOpStats \<and>
      (case statsSwitch fr v (Fields l) (newStats v) of Ok _ \<Rightarrow> True | _ \<Rightarrow> False))"

text \<open>
  The next \<^verbatim>\<open>Scan\<close> ends the first loop: it returns false, or delivers a blank line or
  the per-operation marker.
\<close>

definition statsEnd :: "Scanner \<Rightarrow> bool" where
  "statsEnd s =
     (case fst (Scan s) of
        None \<Rightarrow> True
      | Some line \<Rightarrow>
          Fields line = [] \<or> (2 \<le> length (Fields line) \<and> Fields line ! 0 = fieldPerOpStats))"


text \<open>The statistics after the switch has decoded the line \<open>l\<close>.\<close>

definition applyLine :: "frac \<Rightarrow> string \<Rightarrow> MountStatsNFS \<Rightarrow> string \<Rightarrow> MountStatsNFS" where
  "applyLine fr v st l = (case statsSwitch fr v (Fields l) st of Ok st' \<Rightarrow> st' | _ \<Rightarrow> st)"


text \<open>
  A value for the parameter \<open>fr\<close> at concrete inputs (none of which has a fraction): the
  nanoseconds of the fraction in exact arithmetic, rounded down.
\<close>

definition truncFraction :: frac where
  "truncFraction f k unit = f * unit div 10 ^ k"

text \<open>The fields of the records in the order of their tokens.\<close>

definition bytesFields :: "NFSBytesStats \<Rightarrow> int list" where
  "bytesFields b =
     [Read b, Write b, DirectRead b, DirectWrite b, ReadTotal b, WriteTotal b, ReadPages b,
      WritePages b]"

definition eventsFields :: "NFSEventsStats \<Rightarrow> int list" where
  "eventsFields e =
     [InodeRevalidate e, DnodeRevalidate e, DataInvalidate e, AttributeInvalidate e, VFSOpen e,
      VFSLookup e, VFSAccess e, VFSUpdatePage e, VFSReadPage e, VFSReadPages e, VFSWritePage e,
      VFSWritePages e, VFSGetdents e, VFSSetattr e, VFSFlush e, VFSFsync e, VFSLock e,
      VFSFileRelease e, CongestionWait e, Truncation e, WriteExtension e, SillyRename e,
      ShortRead e, ShortWrite e, JukeboxDelay e, PNFSRead e, PNFSWrite e]"

definition transportFields :: "NFSTransportStats \<Rightarrow> int list" where
  "transportFields t =
     [Port t, Bind t, Connect t, ConnectIdleTime t, IdleTime t, Sends t, Receives t,
      BadTransactionIDs t, CumulativeActiveRequests t, CumulativeBacklog t,
      MaximumRPCSlotsUsed t, CumulativeSendingQueue t, CumulativePendingQueue t]"

definition opFields :: "NFSOperationStats \<Rightarrow> int list" where
  "opFields r =
     [Requests r, Transmissions r, MajorTimeouts r, BytesSent r, BytesReceived r,
      CumulativeQueueTime r, CumulativeTotalResponseTime r, CumulativeTotalRequestTime r]"

section \<open>Properties\<close>

subsection \<open>Integer tokens\<close>

text \<open>
  A token is an integer token when \<^verbatim>\<open>strconv.Atoi\<close> accepts it; \<open>map Atoi ss = map Inr ns\<close>
  says that the tokens \<open>ss\<close> are integer tokens with the values \<open>ns\<close>, in this order.
\<close>

lemma find_snoc:
  "find P (xs @ [x]) = (case find P xs of None \<Rightarrow> (if P x then Some x else None) | Some y \<Rightarrow> Some y)"
  by (induction xs) auto

lemma checked_upt:
  "checked xs [0..<n] v =
     (if n \<le> length xs then Ok (v ()) else Panic (IndexOutOfRange (length xs) (length xs)))"
proof -
  have "find (\<lambda>i. \<not> i < m) [0..<n] = (if n \<le> m then None else Some m)" for m
    by (induction n) (auto simp: find_snoc split: option.splits)
  then show ?thesis
    by (simp add: checked_def)
qed

lemma atoiLoop_Inr_iff: "atoiLoop ss = Inr ns \<longleftrightarrow> map Atoi ss = map Inr ns"
proof (induction ss arbitrary: ns)
  case Nil
  then show ?case by auto
next
  case (Cons s ss)
  show ?case
  proof (cases "Atoi s")
    case (Inl e)
    then show ?thesis by (cases ns) auto
  next
    case (Inr n)
    show ?thesis
    proof (cases "atoiLoop ss")
      case (Inl e)
      with Inr Cons.IH show ?thesis
        by (cases ns) auto
    next
      case ok: (Inr ms)
      with Inr Cons.IH [of ms] Cons.IH show ?thesis
        by (cases ns) auto
    qed
  qed
qed

lemma atoiLoop_length: "atoiLoop ss = Inr ns \<Longrightarrow> length ns = length ss"
  using atoiLoop_Inr_iff [of ss ns] by (metis length_map)

lemma list8: "length ns = 8 \<Longrightarrow> [ns ! 0, ns ! 1, ns ! 2, ns ! 3, ns ! 4, ns ! 5, ns ! 6, ns ! 7] = ns"
  using map_nth [of ns] by (simp add: upt_rec eval_nat_numeral)

lemmas Atoi_eval = Atoi_def ParseInt_def ParseUint_def isDigit_def digitVal_def

subsection \<open>The device line\<close>

text \<open>
  C2. On the tokens of a line, the device-line parser returns the record with device token 1,
  mount point token 4 and filesystem type token 7 (and no statistics) whenever there are at
  least 8 tokens and the tokens 0, 2, 3, 5, 6 are \<^verbatim>\<open>device\<close>, \<^verbatim>\<open>mounted\<close>, \<^verbatim>\<open>on\<close>,
  \<^verbatim>\<open>with\<close>, \<^verbatim>\<open>fstype\<close>; it fails with the invalid-device-entry error whenever there are
  fewer than 8 tokens or one of these tokens differs.
\<close>

theorem parseMount_device_line:
  "(8 \<le> length ss \<and> ss ! 0 = ''device'' \<and> ss ! 2 = ''mounted'' \<and> ss ! 3 = ''on'' \<and>
      ss ! 5 = ''with'' \<and> ss ! 6 = ''fstype''
     \<longrightarrow> parseMount ss = Ok \<lparr>Device = ss ! 1, Mount = ss ! 4, Type = ss ! 7, Stats = None\<rparr>) \<and>
   (length ss < 8 \<or> ss ! 0 \<noteq> ''device'' \<or> ss ! 2 \<noteq> ''mounted'' \<or> ss ! 3 \<noteq> ''on'' \<or>
      ss ! 5 \<noteq> ''with'' \<or> ss ! 6 \<noteq> ''fstype''
     \<longrightarrow> parseMount ss = Err (InvalidDeviceEntry ss))"
  by (auto simp: parseMount_def deviceEntryLen_def format_def)

theorem parseMount_device_line_witness:
  "8 \<le> length (Fields ''device /dev/sda1 mounted on / with fstype ext4'') \<and>
   parseMount (Fields ''device /dev/sda1 mounted on / with fstype ext4'') =
     Ok \<lparr>Device = ''/dev/sda1'', Mount = ''/'', Type = ''ext4'', Stats = None\<rparr> \<and>
   Fields ''device /dev/sda1 mounted at / with fstype ext4'' ! 3 \<noteq> ''on'' \<and>
   parseMount (Fields ''device /dev/sda1 mounted at / with fstype ext4'') =
     Err (InvalidDeviceEntry
       [''device'', ''/dev/sda1'', ''mounted'', ''at'', ''/'', ''with'', ''fstype'', ''ext4'']) \<and>
   length (Fields ''device /dev/sda1 mounted'') < 8 \<and>
   parseMount (Fields ''device /dev/sda1 mounted'') =
     Err (InvalidDeviceEntry [''device'', ''/dev/sda1'', ''mounted''])"
proof -
  have f1: "Fields ''device /dev/sda1 mounted on / with fstype ext4'' =
      [''device'', ''/dev/sda1'', ''mounted'', ''on'', ''/'', ''with'', ''fstype'', ''ext4'']"
    by (simp add: Fields_def asciiSpace_def)
  have f2: "Fields ''device /dev/sda1 mounted at / with fstype ext4'' =
      [''device'', ''/dev/sda1'', ''mounted'', ''at'', ''/'', ''with'', ''fstype'', ''ext4'']"
    by (simp add: Fields_def asciiSpace_def)
  have f3: "Fields ''device /dev/sda1 mounted'' = [''device'', ''/dev/sda1'', ''mounted'']"
    by (simp add: Fields_def asciiSpace_def)
  show ?thesis
    unfolding f1 f2 f3
    using
      parseMount_device_line
        [of "[''device'', ''/dev/sda1'', ''mounted'', ''on'', ''/'', ''with'', ''fstype'', ''ext4'']"]
      parseMount_device_line
        [of "[''device'', ''/dev/sda1'', ''mounted'', ''at'', ''/'', ''with'', ''fstype'', ''ext4'']"]
      parseMount_device_line [of "[''device'', ''/dev/sda1'', ''mounted'']"]
    by simp
qed

subsection \<open>The byte counters\<close>

text \<open>
  C8. The byte-counters decoder succeeds exactly when it is given 8 integer tokens, and the
  record it returns holds their values in the order Read, Write, DirectRead, DirectWrite,
  ReadTotal, WriteTotal, ReadPages, WritePages; any other token count is the
  invalid-bytes-stats error.
\<close>

theorem parseNFSBytesStats_exactly_8_integers:
  "(parseNFSBytesStats ss = Ok b \<longleftrightarrow>
      length ss = 8 \<and>
      map Atoi ss =
        map Inr [Read b, Write b, DirectRead b, DirectWrite b, ReadTotal b, WriteTotal b,
                 ReadPages b, WritePages b]) \<and>
   (length ss \<noteq> 8 \<longrightarrow> parseNFSBytesStats ss = Err (InvalidBytesStats ss))"
proof -
  have wrong: "length ss \<noteq> 8 \<Longrightarrow> parseNFSBytesStats ss = Err (InvalidBytesStats ss)"
    by (simp add: parseNFSBytesStats_def fieldBytesLen_def)
  have "parseNFSBytesStats ss = Ok b \<longleftrightarrow>
      length ss = 8 \<and>
      atoiLoop ss =
        Inr [Read b, Write b, DirectRead b, DirectWrite b, ReadTotal b, WriteTotal b,
             ReadPages b, WritePages b]"
  proof (cases "length ss = 8")
    case False
    with wrong show ?thesis by simp
  next
    case len: True
    show ?thesis
    proof (cases "atoiLoop ss")
      case (Inl e)
      with len show ?thesis
        by (simp add: parseNFSBytesStats_def fieldBytesLen_def)
    next
      case (Inr ns)
      with len have l8: "length ns = 8"
        using atoiLoop_length by fastforce
      from len Inr l8 have res: "parseNFSBytesStats ss =
          Ok \<lparr>Read = ns ! 0, Write = ns ! 1, DirectRead = ns ! 2, DirectWrite = ns ! 3,
             ReadTotal = ns ! 4, WriteTotal = ns ! 5, ReadPages = ns ! 6, WritePages = ns ! 7\<rparr>"
        by (simp add: parseNFSBytesStats_def fieldBytesLen_def checked_upt)
      show ?thesis
      proof
        assume "parseNFSBytesStats ss = Ok b"
        with res have "b = \<lparr>Read = ns ! 0, Write = ns ! 1, DirectRead = ns ! 2,
            DirectWrite = ns ! 3, ReadTotal = ns ! 4, WriteTotal = ns ! 5, ReadPages = ns ! 6,
            WritePages = ns ! 7\<rparr>"
          by simp
        with Inr len list8 [OF l8] show "length ss = 8 \<and> atoiLoop ss =
            Inr [Read b, Write b, DirectRead b, DirectWrite b, ReadTotal b, WriteTotal b,
                 ReadPages b, WritePages b]"
          by simp
      next
        assume "length ss = 8 \<and> atoiLoop ss =
            Inr [Read b, Write b, DirectRead b, DirectWrite b, ReadTotal b, WriteTotal b,
                 ReadPages b, WritePages b]"
        with Inr have "ns = [Read b, Write b, DirectRead b, DirectWrite b, ReadTotal b,
            WriteTotal b, ReadPages b, WritePages b]"
          by simp
        with res show "parseNFSBytesStats ss = Ok b"
          by simp
      qed
    qed
  qed
  with wrong show ?thesis
    by (simp add: atoiLoop_Inr_iff)
qed

theorem parseNFSBytesStats_exactly_8_integers_witness:
  "parseNFSBytesStats [''260'', ''0'', ''13'', ''0'', ''260'', ''48'', ''7'', ''-8''] =
     Ok \<lparr>Read = 260, Write = 0, DirectRead = 13, DirectWrite = 0, ReadTotal = 260,
        WriteTotal = 48, ReadPages = 7, WritePages = - 8\<rparr> \<and>
   length [''260'', ''0''] \<noteq> (8 :: nat) \<and>
   parseNFSBytesStats [''260'', ''0''] = Err (InvalidBytesStats [''260'', ''0''])"
  using
    parseNFSBytesStats_exactly_8_integers
      [of "[''260'', ''0'', ''13'', ''0'', ''260'', ''48'', ''7'', ''-8'']"
          "\<lparr>Read = 260, Write = 0, DirectRead = 13, DirectWrite = 0, ReadTotal = 260,
            WriteTotal = 48, ReadPages = 7, WritePages = - 8\<rparr>"]
    parseNFSBytesStats_exactly_8_integers [of "[''260'', ''0'']"]
  by (simp add: Atoi_eval)

subsection \<open>The transport counters\<close>

text \<open>
  C1. With the version \<^verbatim>\<open>1.0\<close> and ten integer tokens the transport decoder does not
  return: the slice of the ten values has length 10, and the read \<^verbatim>\<open>ns[10]\<close> for the first
  field of version \<^verbatim>\<open>1.1\<close> panics.
\<close>

theorem parseNFSTransportStats_v10_panics:
  "length ss = 10 \<Longrightarrow> map Atoi ss = map Inr ns \<Longrightarrow>
   parseNFSTransportStats ss ''1.0'' = Panic (IndexOutOfRange 10 10)"
proof -
  assume len: "length ss = 10" and ints: "map Atoi ss = map Inr ns"
  from ints have al: "atoiLoop ss = Inr ns"
    by (simp add: atoiLoop_Inr_iff)
  with len have "length ns = 10"
    using atoiLoop_length by fastforce
  with len al show ?thesis
    by (simp add: parseNFSTransportStats_def statVersion10_def statVersion11_def
        fieldTransport10Len_def fieldTransport11Len_def checked_upt)
qed

theorem parseNFSTransportStats_v10_panics_witness:
  "parseNFSTransportStats
     [''832'', ''0'', ''1'', ''0'', ''11'', ''6428'', ''6428'', ''0'', ''12154'', ''0''] ''1.0'' =
     Panic (IndexOutOfRange 10 10)"
  using parseNFSTransportStats_v10_panics
    [of "[''832'', ''0'', ''1'', ''0'', ''11'', ''6428'', ''6428'', ''0'', ''12154'', ''0'']"
        "[832, 0, 1, 0, 11, 6428, 6428, 0, 12154, 0]"]
  by (simp add: Atoi_eval)

subsection \<open>Decimal numerals\<close>

lemma digitVal_range: "isDigit c \<Longrightarrow> 0 \<le> digitVal c \<and> digitVal c \<le> 9"
  by (simp add: isDigit_def digitVal_def)

lemma decimalFrom_mono: "list_all isDigit ds \<Longrightarrow> 0 \<le> a \<Longrightarrow> a \<le> decimalFrom a ds"
proof (induction ds arbitrary: a)
  case Nil
  then show ?case by simp
next
  case (Cons c cs)
  then have d: "0 \<le> digitVal c"
    using digitVal_range by simp
  with Cons.prems have "a \<le> a * 10 + digitVal c"
    by simp
  moreover from Cons d have "a * 10 + digitVal c \<le> decimalFrom (a * 10 + digitVal c) cs"
    by simp
  ultimately show ?case
    by simp
qed

lemma parseUintLoop_digits:
  "list_all isDigit ds \<Longrightarrow> 0 \<le> a \<Longrightarrow> decimalFrom a ds < 2 ^ 64 \<Longrightarrow>
   parseUintLoop a ds = Inr (decimalFrom a ds)"
proof (induction ds arbitrary: a)
  case Nil
  then show ?case by simp
next
  case (Cons c cs)
  then have d: "0 \<le> digitVal c" and dig: "isDigit c"
    using digitVal_range by simp_all
  from Cons.prems d have nn: "0 \<le> a * 10 + digitVal c"
    by simp
  with Cons.prems have "a * 10 + digitVal c \<le> decimalFrom (a * 10 + digitVal c) cs"
    using decimalFrom_mono by simp
  with Cons.prems have small: "a * 10 + digitVal c < 2 ^ 64"
    by simp
  with d have "a < (2 ^ 64 - 1) div 10 + 1"
    by simp
  with small dig Cons.IH [OF _ nn] Cons.prems show ?case
    by simp
qed

lemma parseUintLoop_Inr:
  "parseUintLoop a ds = Inr m \<Longrightarrow> list_all isDigit ds \<and> m = decimalFrom a ds"
  by (induction a ds rule: parseUintLoop.induct) (auto split: if_splits)

lemma leadingInt_digits:
  "list_all isDigit ds \<Longrightarrow> 0 \<le> a \<Longrightarrow> decimalFrom a ds \<le> 2 ^ 63 \<Longrightarrow>
   r = [] \<or> \<not> isDigit (hd r) \<Longrightarrow> leadingInt a (ds @ r) = Some (decimalFrom a ds, r)"
proof (induction ds arbitrary: a)
  case Nil
  then show ?case by (cases r) auto
next
  case (Cons c cs)
  then have d: "0 \<le> digitVal c" and dig: "isDigit c"
    using digitVal_range by simp_all
  from Cons.prems d have nn: "0 \<le> a * 10 + digitVal c"
    by simp
  with Cons.prems have "a * 10 + digitVal c \<le> decimalFrom (a * 10 + digitVal c) cs"
    using decimalFrom_mono by simp
  with Cons.prems have small: "a * 10 + digitVal c \<le> 2 ^ 63"
    by simp
  with d have "a \<le> 2 ^ 63 div 10"
    by simp
  with small dig Cons.IH [OF _ nn] Cons.prems show ?case
    by simp
qed

lemma Atoi_minus:
  assumes "ds \<noteq> []" and "list_all isDigit ds" and "decimal ds \<le> 2 ^ 63"
  shows "Atoi (CHR ''-'' # ds) = Inr (- decimal ds)"
proof -
  from assms have "parseUintLoop 0 ds = Inr (decimal ds)"
    using parseUintLoop_digits [of ds 0] by (simp add: decimal_def)
  with assms show ?thesis
    by (simp add: Atoi_def ParseInt_def ParseUint_def)
qed

lemma Atoi_plus:
  assumes "ds \<noteq> []" and "list_all isDigit ds" and "decimal ds < 2 ^ 63"
  shows "Atoi (CHR ''+'' # ds) = Inr (decimal ds)"
proof -
  from assms have "parseUintLoop 0 ds = Inr (decimal ds)"
    using parseUintLoop_digits [of ds 0] by (simp add: decimal_def)
  with assms show ?thesis
    by (simp add: Atoi_def ParseInt_def ParseUint_def)
qed

lemma digit_not_sign: "isDigit c \<Longrightarrow> c \<noteq> CHR ''-'' \<and> c \<noteq> CHR ''+'' \<and> c \<noteq> CHR ''.''"
  by (auto simp: isDigit_def)

lemma Atoi_plain:
  assumes "ds \<noteq> []" and "list_all isDigit ds" and "decimal ds < 2 ^ 63"
  shows "Atoi ds = Inr (decimal ds)"
proof -
  from assms have "parseUintLoop 0 ds = Inr (decimal ds)"
    using parseUintLoop_digits [of ds 0] by (simp add: decimal_def)
  moreover from assms have "hd ds \<noteq> CHR ''-'' \<and> hd ds \<noteq> CHR ''+''"
    using digit_not_sign [of "hd ds"] by (cases ds) auto
  ultimately show ?thesis
    using assms by (simp add: Atoi_def ParseInt_def ParseUint_def)
qed

lemma Atoi_Inr_cases:
  assumes "Atoi t = Inr n"
  shows "\<exists>ds. ds \<noteq> [] \<and> list_all isDigit ds \<and>
     ((t = ds \<or> t = CHR ''+'' # ds) \<and> n = decimal ds \<and> n < 2 ^ 63 \<or>
      t = CHR ''-'' # ds \<and> n = - decimal ds \<and> decimal ds \<le> 2 ^ 63)"
proof -
  from assms have ne: "t \<noteq> []"
    by (auto simp: Atoi_def ParseInt_def split: sum.splits)
  define ds where "ds = (if hd t = CHR ''+'' \<or> hd t = CHR ''-'' then tl t else t)"
  from assms ne obtain u where pu: "ParseUint ds = Inr u"
    by (cases "ParseUint ds")
      (auto simp: Atoi_def ParseInt_def ds_def Let_def split: sum.splits numerr.splits if_splits)
  then have dne: "ds \<noteq> []" and loop: "parseUintLoop 0 ds = Inr u"
    by (auto simp: ParseUint_def split: if_splits)
  from loop have digs: "list_all isDigit ds" and u: "u = decimal ds"
    using parseUintLoop_Inr [of 0 ds u] by (simp_all add: decimal_def)
  show ?thesis
  proof (cases "hd t = CHR ''-''")
    case True
    with ne have "t = CHR ''-'' # ds"
      by (cases t) (auto simp: ds_def)
    moreover from assms ne True pu u have "n = - decimal ds \<and> decimal ds \<le> 2 ^ 63"
      by (auto simp: Atoi_def ParseInt_def ds_def Let_def split: sum.splits if_splits)
    ultimately show ?thesis
      using dne digs by blast
  next
    case False
    with ne have "t = ds \<or> t = CHR ''+'' # ds"
      by (cases t) (auto simp: ds_def)
    moreover from assms ne False pu u have "n = decimal ds \<and> n < 2 ^ 63"
      by (auto simp: Atoi_def ParseInt_def ds_def Let_def split: sum.splits if_splits)
    ultimately show ?thesis
      using dne digs by blast
  qed
qed

lemma wrap64_id: "- 9223372036854775808 \<le> x \<Longrightarrow> x < 9223372036854775808 \<Longrightarrow> wrap64 x = x"
proof -
  assume "- 9223372036854775808 \<le> x" and "x < 9223372036854775808"
  then have "0 \<le> x + 9223372036854775808" and "x + 9223372036854775808 < 18446744073709551616"
    by linarith+
  then have "(x + 9223372036854775808) mod 18446744073709551616 = x + 9223372036854775808"
    by (rule mod_pos_pos_trivial)
  then show ?thesis
    by (simp add: wrap64_def)
qed

lemma durLoop_Nil: "durLoop fr orig d [] = Inr d"
  by (subst durLoop.simps) simp

lemma decimal_nonneg: "list_all isDigit ds \<Longrightarrow> 0 \<le> decimal ds"
  using decimalFrom_mono [of ds 0] by (simp add: decimal_def)

lemma durLoop_seconds:
  assumes "ds \<noteq> []" and "list_all isDigit ds" and "decimal ds \<le> 9223372036"
  shows "durLoop fr orig 0 (ds @ ''s'') = Inr (decimal ds * 1000000000)"
proof -
  have li: "leadingInt 0 (ds @ ''s'') = Some (decimal ds, ''s'')"
    using leadingInt_digits [of ds 0 "''s''"] assms by (simp add: decimal_def isDigit_def)
  from assms have hd: "isDigit (hd (ds @ ''s''))"
    by (cases ds) auto
  have nonneg: "0 \<le> decimal ds"
    using assms decimal_nonneg by simp
  with assms have m: "(decimal ds * 1000000000) mod 2 ^ 64 = decimal ds * 1000000000"
    by (simp add: mod_pos_pos_trivial)
  from assms have le: "\<not> 2 ^ 63 < decimal ds * 1000000000"
    by simp
  have u: "unitChar CHR ''s''"
    by (simp add: unitChar_def isDigit_def)
  from assms(1) li hd m le u show ?thesis
    by (subst durLoop.simps) (simp add: unitMap_def durLoop_Nil)
qed

lemma ParseDuration_digits:
  assumes "ds \<noteq> []" and "list_all isDigit ds" and "decimal ds \<le> 9223372036"
  shows "ParseDuration fr (ds @ ''s'') = Inr (decimal ds * 1000000000)"
    and "ParseDuration fr (CHR ''+'' # ds @ ''s'') = Inr (decimal ds * 1000000000)"
    and "ParseDuration fr (CHR ''-'' # ds @ ''s'') = Inr (- (decimal ds * 1000000000))"
proof -
  from assms have h: "hd (ds @ ''s'') \<noteq> CHR ''-'' \<and> hd (ds @ ''s'') \<noteq> CHR ''+''"
    using digit_not_sign [of "hd ds"] by (cases ds) auto
  from assms have n0: "ds @ ''s'' \<noteq> ''0''"
    by (cases ds) auto
  from assms have le: "\<not> 2 ^ 63 - 1 < decimal ds * 1000000000"
    by simp
  show "ParseDuration fr (ds @ ''s'') = Inr (decimal ds * 1000000000)"
    using h n0 le durLoop_seconds [OF assms, of fr "ds @ ''s''"] assms(1)
    by (simp add: ParseDuration_def)
  show "ParseDuration fr (CHR ''+'' # ds @ ''s'') = Inr (decimal ds * 1000000000)"
    using n0 le durLoop_seconds [OF assms, of fr "CHR ''+'' # ds @ ''s''"] assms(1)
    by (simp add: ParseDuration_def)
  show "ParseDuration fr (CHR ''-'' # ds @ ''s'') = Inr (- (decimal ds * 1000000000))"
    using n0 le durLoop_seconds [OF assms, of fr "CHR ''-'' # ds @ ''s''"] assms(1)
    by (simp add: ParseDuration_def)
qed

lemma ParseDuration_Atoi:
  assumes "Atoi t = Inr n" and "\<bar>n\<bar> \<le> 9223372036"
  shows "ParseDuration fr (t @ ''s'') = Inr (mulDuration n Second)"
proof -
  from assms(2) have "- 9223372036854775808 \<le> n * 1000000000"
    and "n * 1000000000 < 9223372036854775808"
    by linarith+
  then have md: "mulDuration n Second = n * 1000000000"
    by (simp add: mulDuration_def Second_def wrap64_id)
  from Atoi_Inr_cases [OF assms(1)] obtain ds where ds: "ds \<noteq> []" "list_all isDigit ds"
    and c: "(t = ds \<or> t = CHR ''+'' # ds) \<and> n = decimal ds \<or> t = CHR ''-'' # ds \<and> n = - decimal ds"
    by blast
  from ds have "0 \<le> decimal ds"
    using decimal_nonneg by simp
  with c assms(2) have b: "decimal ds \<le> 9223372036"
    by auto
  from c ParseDuration_digits [OF ds b, of fr] md show ?thesis
    by auto
qed

lemma leadingFraction_no_digit:
  "list_all (\<lambda>c. \<not> isDigit c) r \<Longrightarrow> leadingFraction x k ov r = (x, k, r)"
  by (cases r) auto

lemma ParseDuration_no_digit:
  assumes "list_all (\<lambda>c. \<not> isDigit c) t"
  shows "ParseDuration fr (t @ ''s'') = Inl (InvalidDuration (t @ ''s''))"
proof -
  define s0 where "s0 = t @ ''s''"
  define s where "s = (if s0 \<noteq> [] \<and> (hd s0 = CHR ''-'' \<or> hd s0 = CHR ''+'') then tl s0 else s0)"
  from assms have nd0: "list_all (\<lambda>c. \<not> isDigit c) s0"
    by (simp add: s0_def isDigit_def)
  then have nd: "list_all (\<lambda>c. \<not> isDigit c) s"
    by (cases s0) (auto simp: s_def)
  then have n0: "s \<noteq> ''0''"
    by (auto simp: isDigit_def)
  have loop: "durLoop fr s0 0 s = Inl (InvalidDuration s0)" if ne: "s \<noteq> []"
  proof (cases "hd s = CHR ''.''")
    case False
    moreover from nd ne have "\<not> isDigit (hd s)"
      by (cases s) auto
    ultimately show ?thesis
      using ne by (subst durLoop.simps) simp
  next
    case True
    with ne obtain r where s: "s = CHR ''.'' # r"
      by (cases s) auto
    with nd have r: "list_all (\<lambda>c. \<not> isDigit c) r"
      by simp
    have dot: "\<not> isDigit CHR ''.''"
      by (simp add: isDigit_def)
    show ?thesis
      unfolding s
      by (subst durLoop.simps) (simp add: dot leadingFraction_no_digit [OF r])
  qed
  show ?thesis
    using loop n0 unfolding ParseDuration_def Let_def s0_def [symmetric] s_def [symmetric]
    by (cases "s = []") simp_all
qed

lemma leadingInt_overflow:
  "list_all isDigit ds \<Longrightarrow> 0 \<le> a \<Longrightarrow> a \<le> 2 ^ 63 \<Longrightarrow> 2 ^ 63 < decimalFrom a ds \<Longrightarrow>
   leadingInt a (ds @ r) = None"
proof (induction ds arbitrary: a)
  case Nil
  then show ?case by simp
next
  case (Cons c cs)
  then have d: "0 \<le> digitVal c" and dig: "isDigit c"
    using digitVal_range by simp_all
  show ?case
  proof (cases "2 ^ 63 div 10 < a \<or> 2 ^ 63 < a * 10 + digitVal c")
    case True
    with dig show ?thesis
      by auto
  next
    case False
    with Cons.prems d have "leadingInt (a * 10 + digitVal c) (cs @ r) = None"
      by (intro Cons.IH) simp_all
    with False dig show ?thesis
      by simp
  qed
qed

lemma takeWhile_run:
  "list_all P w \<Longrightarrow> r = [] \<or> \<not> P (hd r) \<Longrightarrow>
   takeWhile P (w @ r) = w \<and> dropWhile P (w @ r) = r"
  by (induction w) (cases r; auto)+

lemma unitMap_None:
  "unitMap w = None \<longleftrightarrow>
     w \<notin> {''ns'', ''us'', [CHR 0xC2, CHR 0xB5, CHR ''s''], [CHR 0xCE, CHR 0xBC, CHR ''s''],
          ''ms'', ''s'', ''m'', ''h''}"
  by (simp add: unitMap_def)

lemma durLoop_unknown_unit:
  assumes "ds \<noteq> []" and "list_all isDigit ds" and "w \<noteq> []" and "list_all unitChar w"
    and "r = [] \<or> \<not> unitChar (hd r)" and "unitMap w = None"
  shows "durLoop fr orig 0 (ds @ w @ r) =
     Inl (if decimal ds \<le> 2 ^ 63 then UnknownUnit w orig else InvalidDuration orig)"
proof -
  from assms(1,2) have hd: "isDigit (hd (ds @ w @ r))"
    by (cases ds) auto
  from assms(3,4) have nd: "\<not> isDigit (hd (w @ r))" and ndot: "hd (w @ r) \<noteq> CHR ''.''"
    by (cases w; simp add: unitChar_def)+
  from assms(3) have ne: "w @ r \<noteq> []"
    by simp
  show ?thesis
  proof (cases "decimal ds \<le> 2 ^ 63")
    case True
    with assms(2) nd ne have li: "leadingInt 0 (ds @ w @ r) = Some (decimal ds, w @ r)"
      using leadingInt_digits [of ds 0 "w @ r"] by (simp add: decimal_def)
    from takeWhile_run [OF assms(4,5)] have tw: "takeWhile unitChar (w @ r) = w"
      by simp
    from assms(1,3,6) hd li ndot tw True show ?thesis
      by (subst durLoop.simps) simp
  next
    case False
    with assms(2) have "leadingInt 0 (ds @ w @ r) = None"
      using leadingInt_overflow [of ds 0 "w @ r"] by (simp add: decimal_def)
    with assms(1) hd False show ?thesis
      by (subst durLoop.simps) simp
  qed
qed

lemma ParseDuration_unknown_unit:
  assumes "sg \<in> {[], ''+'', ''-''}"
    and "ds \<noteq> []" and "list_all isDigit ds" and "w \<noteq> []" and "list_all unitChar w"
    and "r = [] \<or> \<not> unitChar (hd r)" and "unitMap w = None"
  shows "ParseDuration fr (sg @ ds @ w @ r) =
     Inl (if decimal ds \<le> 2 ^ 63 then UnknownUnit w (sg @ ds @ w @ r)
          else InvalidDuration (sg @ ds @ w @ r))"
proof -
  from assms(2,3) have h: "hd (ds @ w @ r) \<noteq> CHR ''-'' \<and> hd (ds @ w @ r) \<noteq> CHR ''+''"
    using digit_not_sign [of "hd ds"] by (cases ds) auto
  from assms(2,4) have n0: "ds @ w @ r \<noteq> ''0''"
    by (cases ds; cases w) auto
  note loop = durLoop_unknown_unit [OF assms(2-7), of fr]
  from assms(1) consider "sg = []" | "sg = ''+''" | "sg = ''-''"
    by auto
  then show ?thesis
  proof cases
    case 1
    with h n0 loop [of "ds @ w @ r"] assms(2) show ?thesis
      by (simp add: ParseDuration_def)
  next
    case 2
    with n0 loop [of "CHR ''+'' # ds @ w @ r"] assms(2) show ?thesis
      by (simp add: ParseDuration_def)
  next
    case 3
    with n0 loop [of "CHR ''-'' # ds @ w @ r"] assms(2) show ?thesis
      by (simp add: ParseDuration_def)
  qed
qed

lemma durLoop_seconds_overflow:
  assumes "ds \<noteq> []" and "list_all isDigit ds" and "9223372036 < decimal ds"
  shows "durLoop fr orig 0 (ds @ ''s'') = Inl (InvalidDuration orig)"
proof -
  from assms(1,2) have hd: "isDigit (hd (ds @ ''s''))"
    by (cases ds) auto
  show ?thesis
  proof (cases "decimal ds \<le> 2 ^ 63")
    case True
    have li: "leadingInt 0 (ds @ ''s'') = Some (decimal ds, ''s'')"
      using leadingInt_digits [of ds 0 "''s''"] assms True by (simp add: decimal_def isDigit_def)
    have u: "unitChar CHR ''s''"
      by (simp add: unitChar_def isDigit_def)
    from assms(1,3) hd li u show ?thesis
      by (subst durLoop.simps) (simp add: unitMap_def)
  next
    case False
    with assms(2) have "leadingInt 0 (ds @ ''s'') = None"
      using leadingInt_overflow [of ds 0 "''s''"] by (simp add: decimal_def)
    with assms(1) hd show ?thesis
      by (subst durLoop.simps) simp
  qed
qed

lemma ParseDuration_Atoi_overflow:
  assumes "Atoi t = Inr n" and "9223372036 < \<bar>n\<bar>"
  shows "ParseDuration fr (t @ ''s'') = Inl (InvalidDuration (t @ ''s''))"
proof -
  from Atoi_Inr_cases [OF assms(1)] obtain ds where ds: "ds \<noteq> []" "list_all isDigit ds"
    and c: "(t = ds \<or> t = CHR ''+'' # ds) \<and> n = decimal ds \<or> t = CHR ''-'' # ds \<and> n = - decimal ds"
    by blast
  from ds have "0 \<le> decimal ds"
    using decimal_nonneg by simp
  with c assms(2) have b: "9223372036 < decimal ds"
    by auto
  from ds have h: "hd (ds @ ''s'') \<noteq> CHR ''-'' \<and> hd (ds @ ''s'') \<noteq> CHR ''+''"
    using digit_not_sign [of "hd ds"] by (cases ds) auto
  from ds have n0: "ds @ ''s'' \<noteq> ''0''"
    by (cases ds) auto
  note loop = durLoop_seconds_overflow [OF ds b, of fr]
  from c consider "t = ds" | "t = CHR ''+'' # ds" | "t = CHR ''-'' # ds"
    by auto
  then show ?thesis
  proof cases
    case 1
    with h n0 loop [of "ds @ ''s''"] ds(1) show ?thesis
      by (simp add: ParseDuration_def)
  next
    case 2
    with n0 loop [of "CHR ''+'' # ds @ ''s''"] ds(1) show ?thesis
      by (simp add: ParseDuration_def)
  next
    case 3
    with n0 loop [of "CHR ''-'' # ds @ ''s''"] ds(1) show ?thesis
      by (simp add: ParseDuration_def)
  qed
qed

subsection \<open>Lines and blocks\<close>

lemma Scan_Cons:
  "pending s = (l, e) # rest \<Longrightarrow>
   Scan s = (Some l, s\<lparr>pending := rest, err := sticky (err s) e\<rparr>)"
  by (simp add: Scan_def)

lemma skipLines_pending:
  "pending s = blk @ rest \<Longrightarrow> pending (skipLines (length blk) s) = rest"
proof (induction blk arbitrary: s)
  case Nil
  then show ?case by simp
next
  case (Cons x blk)
  obtain l e where x: "x = (l, e)"
    by (cases x)
  with Cons.prems have "pending (snd (Scan s)) = blk @ rest"
    by (simp add: Scan_def)
  with Cons.IH show ?case
    by simp
qed

lemma opsLoop_end: "blockEnd s \<Longrightarrow> opsLoop s ops = ((ops, ScanErr (snd (Scan s))), snd (Scan s))"
  by (subst opsLoop.simps) (auto simp: blockEnd_def split: prod.splits option.splits)

lemma opsLoop_line:
  assumes "Scan s = (Some l, s1)" and "opLine l"
  shows "\<exists>r. opDecoded (Fields l) r \<and> opsLoop s ops = opsLoop s1 (ops @ [r])"
proof -
  from assms(2) obtain ns where len: "length (Fields l) = 9" and ns: "atoiLoop (tl (Fields l)) = Inr ns"
    by (auto simp: opLine_def split: sum.splits)
  define r where "r =
    \<lparr>Operation = TrimSuffix (Fields l ! 0) '':'', Requests = ns ! 0, Transmissions = ns ! 1,
     MajorTimeouts = ns ! 2, BytesSent = ns ! 3, BytesReceived = ns ! 4,
     CumulativeQueueTime = mulDuration (ns ! 5) Millisecond,
     CumulativeTotalResponseTime = mulDuration (ns ! 6) Millisecond,
     CumulativeTotalRequestTime = mulDuration (ns ! 7) Millisecond\<rparr>"
  from assms(1) len ns have step: "opsLoop s ops = opsLoop s1 (ops @ [r])"
    by (subst opsLoop.simps) (simp add: numFields_def r_def)
  from ns have m: "map Atoi (tl (Fields l)) = map Inr ns"
    by (simp add: atoiLoop_Inr_iff)
  from len have l8: "length ns = 8"
    using arg_cong [OF m, of length] by simp
  have nth: "Atoi (Fields l ! Suc i) = Inr (ns ! i)" if "i < 8" for i
  proof -
    from that len have "map Atoi (tl (Fields l)) ! i = Atoi (Fields l ! Suc i)"
      by (simp add: nth_tl)
    moreover from that l8 have "map Inr ns ! i = (Inr (ns ! i) :: error + int)"
      by simp
    ultimately show ?thesis
      using m by simp
  qed
  have "opDecoded (Fields l) r"
    using nth [of 0] nth [of 1] nth [of 2] nth [of 3] nth [of 4] nth [of 5] nth [of 6] nth [of 7]
    by (simp add: opDecoded_def r_def eval_nat_numeral)
  with step show ?thesis
    by blast
qed

lemma opsLoop_block:
  "pending s = blk @ rest \<Longrightarrow> list_all opLine (map fst blk) \<Longrightarrow>
   \<exists>recs. list_all2 opDecoded (map (\<lambda>x. Fields (fst x)) blk) recs \<and>
     opsLoop s ops = opsLoop (skipLines (length blk) s) (ops @ recs)"
proof (induction blk arbitrary: s ops)
  case Nil
  then show ?case by simp
next
  case (Cons x blk)
  obtain l e where x: "x = (l, e)"
    by (cases x)
  define s1 where "s1 = s\<lparr>pending := blk @ rest, err := sticky (err s) e\<rparr>"
  from Cons.prems x have sc: "Scan s = (Some l, s1)"
    by (simp add: Scan_Cons s1_def)
  from Cons.prems x have "opLine l"
    by simp
  from opsLoop_line [OF sc this, of ops] obtain r
    where r: "opDecoded (Fields l) r" and step: "opsLoop s ops = opsLoop s1 (ops @ [r])"
    by blast
  have ps1: "pending s1 = blk @ rest"
    by (simp add: s1_def)
  from Cons.prems have all: "list_all opLine (map fst blk)"
    by simp
  from Cons.IH [OF ps1 all, of "ops @ [r]"] obtain recs
    where recs: "list_all2 opDecoded (map (\<lambda>x. Fields (fst x)) blk) recs"
      and rest: "opsLoop s1 (ops @ [r]) = opsLoop (skipLines (length blk) s1) ((ops @ [r]) @ recs)"
    by blast
  from r recs x have "list_all2 opDecoded (map (\<lambda>x. Fields (fst x)) (x # blk)) (r # recs)"
    by simp
  moreover from step rest sc have
    "opsLoop s ops = opsLoop (skipLines (length (x # blk)) s) (ops @ r # recs)"
    by simp
  ultimately show ?case
    by blast
qed

lemma mulDuration_Millisecond:
  "\<bar>n\<bar> \<le> 9223372036854 \<Longrightarrow> mulDuration n Millisecond = n * 1000000"
proof -
  assume "\<bar>n\<bar> \<le> 9223372036854"
  then have "- 9223372036854775808 \<le> n * 1000000" and "n * 1000000 < 9223372036854775808"
    by linarith+
  then show ?thesis
    by (simp add: mulDuration_def Millisecond_def wrap64_id)
qed

text \<open>
  C3. When the scanner delivers the per-operation lines \<open>blk\<close> (each of nine tokens whose
  last eight are integer tokens) and then a blank line or the end of the input, the
  per-operation parser returns one record per line, in order; each record has the name of
  token 0 without its trailing colon, the values of the tokens 1 to 5 as plain integers and
  the values of the tokens 6, 7, 8 multiplied by \<^verbatim>\<open>time.Millisecond\<close> (a duration in
  \<^verbatim>\<open>int64\<close> nanoseconds; \<open>mulDuration_Millisecond\<close>: \<open>n\<close> milliseconds exactly for
  \<open>\<bar>n\<bar> \<le> 9223372036854\<close>). When the lines are followed by a non-blank line whose token
  count is not 9, the parser fails with the invalid-per-operation-stats error and no records.
\<close>

theorem parseNFSOperationStats_lines:
  assumes "pending s = blk @ rest" and "list_all opLine (map fst blk)"
  shows "(blockEnd (skipLines (length blk) s) \<longrightarrow>
      (\<exists>recs. list_all2 opDecoded (map (\<lambda>x. Fields (fst x)) blk) recs \<and>
         parseNFSOperationStats s =
           ((recs, ScanErr (snd (Scan (skipLines (length blk) s)))),
            snd (Scan (skipLines (length blk) s))))) \<and>
    (rest \<noteq> [] \<and> Fields (fst (hd rest)) \<noteq> [] \<and> length (Fields (fst (hd rest))) \<noteq> 9 \<longrightarrow>
      fst (parseNFSOperationStats s) =
        ([], Some (InvalidPerOpStats (Fields (fst (hd rest))))))"
proof -
  from opsLoop_block [OF assms, of "[]"] obtain recs
    where recs: "list_all2 opDecoded (map (\<lambda>x. Fields (fst x)) blk) recs"
      and loop: "opsLoop s [] = opsLoop (skipLines (length blk) s) recs"
    by auto
  have "parseNFSOperationStats s =
      ((recs, ScanErr (snd (Scan (skipLines (length blk) s)))),
       snd (Scan (skipLines (length blk) s)))"
    if "blockEnd (skipLines (length blk) s)"
    using loop opsLoop_end [OF that, of recs] by (simp add: parseNFSOperationStats_def)
  moreover have "fst (parseNFSOperationStats s) =
      ([], Some (InvalidPerOpStats (Fields (fst (hd rest)))))"
    if bad: "rest \<noteq> [] \<and> Fields (fst (hd rest)) \<noteq> [] \<and> length (Fields (fst (hd rest))) \<noteq> 9"
  proof -
    from bad obtain l e rest' where r: "rest = (l, e) # rest'"
      by (cases rest) auto
    have "pending (skipLines (length blk) s) = (l, e) # rest'"
      using skipLines_pending [OF assms(1)] r by simp
    from Scan_Cons [OF this] bad r
    have "fst (opsLoop (skipLines (length blk) s) recs) = ([], Some (InvalidPerOpStats (Fields l)))"
      by (subst opsLoop.simps) (simp add: numFields_def)
    with loop r show ?thesis
      by (simp add: parseNFSOperationStats_def)
  qed
  ultimately show ?thesis
    using recs by blast
qed

lemmas Fields_eval = Fields_def asciiSpace_def

theorem parseNFSOperationStats_lines_witness:
  "parseNFSOperationStats (NewScanner [''READ: 1 2 3 4 5 6 7 8''] None) =
     (([\<lparr>Operation = ''READ'', Requests = 1, Transmissions = 2, MajorTimeouts = 3, BytesSent = 4,
         BytesReceived = 5, CumulativeQueueTime = 6 * Millisecond,
         CumulativeTotalResponseTime = 7 * Millisecond,
         CumulativeTotalRequestTime = 8 * Millisecond\<rparr>], None),
      \<lparr>pending = [], final = None, err = None\<rparr>) \<and>
   fst (parseNFSOperationStats (NewScanner [''READ: 1 2 3 4 5 6 7 8'', ''WRITE: 260 48''] None)) =
     ([], Some (InvalidPerOpStats [''WRITE:'', ''260'', ''48'']))"
proof -
  define rd where "rd = Fields ''READ: 1 2 3 4 5 6 7 8''"
  have len: "length rd = 9" and name: "rd ! 0 = ''READ:''"
    and a: "Atoi (rd ! 1) = Inr 1" "Atoi (rd ! 2) = Inr 2" "Atoi (rd ! 3) = Inr 3"
      "Atoi (rd ! 4) = Inr 4" "Atoi (rd ! 5) = Inr 5" "Atoi (rd ! 6) = Inr 6"
      "Atoi (rd ! 7) = Inr 7" "Atoi (rd ! 8) = Inr 8"
    and al: "atoiLoop (tl rd) \<noteq> Inl e" for e
    by (simp_all add: rd_def Fields_eval Atoi_eval)
  have g: "Fields ''WRITE: 260 48'' = [''WRITE:'', ''260'', ''48'']"
    by (simp add: Fields_eval)
  have ol: "opLine ''READ: 1 2 3 4 5 6 7 8''"
    using len al by (auto simp: opLine_def rd_def split: sum.splits)
  have "\<exists>recs. list_all2 opDecoded [rd] recs \<and>
      parseNFSOperationStats (NewScanner [''READ: 1 2 3 4 5 6 7 8''] None) =
        ((recs, None), \<lparr>pending = [], final = None, err = None\<rparr>)"
    using parseNFSOperationStats_lines
      [of "NewScanner [''READ: 1 2 3 4 5 6 7 8''] None" "[(''READ: 1 2 3 4 5 6 7 8'', None)]" "[]"] ol
    by (simp add: NewScanner_def Scan_def blockEnd_def ScanErr_def sticky_def rd_def)
  then obtain r where dec: "opDecoded rd r"
    and res: "parseNFSOperationStats (NewScanner [''READ: 1 2 3 4 5 6 7 8''] None) =
        (([r], None), \<lparr>pending = [], final = None, err = None\<rparr>)"
    by (auto simp: list_all2_Cons1)
  from dec name a have "r = \<lparr>Operation = ''READ'', Requests = 1, Transmissions = 2,
      MajorTimeouts = 3, BytesSent = 4, BytesReceived = 5, CumulativeQueueTime = 6 * Millisecond,
      CumulativeTotalResponseTime = 7 * Millisecond,
      CumulativeTotalRequestTime = 8 * Millisecond\<rparr>"
    by (cases r)
      (simp add: opDecoded_def TrimSuffix_def HasSuffix_def mulDuration_def wrap64_def
        Millisecond_def)
  moreover have "fst (parseNFSOperationStats
      (NewScanner [''READ: 1 2 3 4 5 6 7 8'', ''WRITE: 260 48''] None)) =
      ([], Some (InvalidPerOpStats [''WRITE:'', ''260'', ''48'']))"
    using parseNFSOperationStats_lines
      [of "NewScanner [''READ: 1 2 3 4 5 6 7 8'', ''WRITE: 260 48''] None"
          "[(''READ: 1 2 3 4 5 6 7 8'', None)]" "[(''WRITE: 260 48'', None)]"] ol
    by (simp add: NewScanner_def g)
  ultimately show ?thesis
    using res by simp
qed

lemma field_names_distinct:
  "fieldAge \<noteq> fieldBytes" "fieldAge \<noteq> fieldEvents" "fieldAge \<noteq> fieldTransport"
  "fieldBytes \<noteq> fieldEvents" "fieldBytes \<noteq> fieldTransport" "fieldEvents \<noteq> fieldTransport"
  "fieldPerOpStats \<noteq> fieldAge" "fieldPerOpStats \<noteq> fieldBytes" "fieldPerOpStats \<noteq> fieldEvents"
  "fieldPerOpStats \<noteq> fieldTransport"
  by (simp_all add: fieldAge_def fieldBytes_def fieldEvents_def fieldTransport_def
      fieldPerOpStats_def)

text \<open>What the switch does depends on the statistics record only through the field it stores.\<close>

lemma statsSwitch_cases:
  "statsSwitch fr v ss st =
     (if ss ! 0 = fieldAge then
        (case ParseDuration fr (ss ! 1 @ ''s'') of Inl e \<Rightarrow> Err e | Inr d \<Rightarrow> Ok (st\<lparr>Age := d\<rparr>))
      else if ss ! 0 = fieldBytes then
        (case parseNFSBytesStats (drop 1 ss) of
           Ok b \<Rightarrow> Ok (st\<lparr>Bytes := b\<rparr>) | Err e \<Rightarrow> Err e | Panic p \<Rightarrow> Panic p)
      else if ss ! 0 = fieldEvents then
        (case parseNFSEventsStats (drop 1 ss) of
           Ok b \<Rightarrow> Ok (st\<lparr>Events := b\<rparr>) | Err e \<Rightarrow> Err e | Panic p \<Rightarrow> Panic p)
      else if ss ! 0 = fieldTransport then
        (if length ss < 3 then Err (NotEnoughTransportInfo ss)
         else case parseNFSTransportStats (drop 2 ss) v of
           Ok b \<Rightarrow> Ok (st\<lparr>Transport := b\<rparr>) | Err e \<Rightarrow> Err e | Panic p \<Rightarrow> Panic p)
      else Ok st)"
  by (simp add: statsSwitch_def)

lemma statLine_switch:
  assumes "statLine fr v l"
  shows "statsSwitch fr v (Fields l) st = Ok (applyLine fr v st l)"
proof -
  from assms obtain st0 where "statsSwitch fr v (Fields l) (newStats v) = Ok st0"
    by (auto simp: statLine_def split: result.splits)
  then obtain st' where "statsSwitch fr v (Fields l) st = Ok st'"
    unfolding statsSwitch_cases [of fr v "Fields l"]
    by (auto split: if_splits sum.splits result.splits)
  then show ?thesis
    by (simp add: applyLine_def)
qed

lemma statsLoop_line:
  assumes "Scan s = (Some l, s1)" and "statLine fr v l"
  shows "statsLoop fr v s st = statsLoop fr v s1 (applyLine fr v st l)"
proof -
  from assms(2) have "2 \<le> length (Fields l)" and "Fields l ! 0 \<noteq> fieldPerOpStats"
    by (simp_all add: statLine_def)
  with assms(1) statLine_switch [OF assms(2), of st] show ?thesis
    by (subst statsLoop.simps) auto
qed

lemma statsLoop_block:
  "pending s = blk @ rest \<Longrightarrow> list_all (statLine fr v) (map fst blk) \<Longrightarrow>
   statsLoop fr v s st =
     statsLoop fr v (skipLines (length blk) s) (foldl (applyLine fr v) st (map fst blk))"
proof (induction blk arbitrary: s st)
  case Nil
  then show ?case by simp
next
  case (Cons x blk)
  obtain l e where x: "x = (l, e)"
    by (cases x)
  define s1 where "s1 = s\<lparr>pending := blk @ rest, err := sticky (err s) e\<rparr>"
  from Cons.prems x have sc: "Scan s = (Some l, s1)"
    by (simp add: Scan_Cons s1_def)
  from Cons.prems x have sl: "statLine fr v l"
    by simp
  have ps1: "pending s1 = blk @ rest"
    by (simp add: s1_def)
  from Cons.prems have all: "list_all (statLine fr v) (map fst blk)"
    by simp
  from statsLoop_line [OF sc sl, of st] Cons.IH [OF ps1 all, of "applyLine fr v st l"] sc x
  show ?case
    by simp
qed

lemma statsLoop_end:
  assumes "statsEnd s"
  shows "statsLoop fr v s st = (Ok st, snd (Scan s))"
proof (cases "Scan s")
  case (Pair o1 s1)
  show ?thesis
  proof (cases o1)
    case None
    with Pair show ?thesis
      by (subst statsLoop.simps) simp
  next
    case (Some l)
    with assms Pair
    have c: "Fields l = [] \<or> (2 \<le> length (Fields l) \<and> Fields l ! 0 = fieldPerOpStats)"
      by (simp add: statsEnd_def)
    then show ?thesis
    proof
      assume "Fields l = []"
      with Pair Some show ?thesis
        by (subst statsLoop.simps) simp
    next
      assume m: "2 \<le> length (Fields l) \<and> Fields l ! 0 = fieldPerOpStats"
      then have "statsSwitch fr v (Fields l) st = Ok st"
        using field_names_distinct by (simp add: statsSwitch_cases)
      with m Pair Some show ?thesis
        by (subst statsLoop.simps) auto
    qed
  qed
qed






lemmas decoder_eval =
  statsSwitch_def fieldAge_def fieldBytes_def fieldEvents_def fieldTransport_def
  fieldPerOpStats_def Atoi_def ParseInt_def ParseUint_def isDigit_def digitVal_def
  ParseDuration_def durLoop.simps unitChar_def unitMap_def
  parseNFSBytesStats_def parseNFSEventsStats_def parseNFSTransportStats_def checked_upt
  fieldBytesLen_def fieldEventsLen_def fieldTransport10Len_def fieldTransport11Len_def
  statVersion10_def statVersion11_def

lemmas scanner_eval = NewScanner_def Scan_def ScanErr_def sticky_def


subsection \<open>Errors of the driver\<close>

lemma mountsLoop_error:
  "mountsLoop fr s mounts = Inr (ms, Some e) \<Longrightarrow> ms = [] \<or> (\<exists>x. e = ScanError x)"
proof (induction fr s mounts rule: mountsLoop.induct)
  case (1 fr s mounts)
  obtain o1 s1 where sc: "Scan s = (o1, s1)"
    by (cases "Scan s")
  show ?case
  proof (cases o1)
    case None
    with sc "1.prems" show ?thesis
      by (subst (asm) mountsLoop.simps) (auto simp: ScanErr_def)
  next
    case (Some line)
    note ih = "1.IH" [OF sc [symmetric] Some]
    show ?thesis
    proof (cases "length (Fields line) = 0 \<or> Fields line ! 0 \<noteq> device")
      case True
      with sc Some "1.prems" have "mountsLoop fr s1 mounts = Inr (ms, Some e)"
        by (subst (asm) mountsLoop.simps) simp
      with ih(1) [OF True] show ?thesis .
    next
      case dev: False
      show ?thesis
      proof (cases "parseMount (Fields line)")
        case (Err e')
        with sc Some dev "1.prems" show ?thesis
          by (subst (asm) mountsLoop.simps) simp
      next
        case (Panic p)
        with sc Some dev "1.prems" show ?thesis
          by (subst (asm) mountsLoop.simps) simp
      next
        case (Ok m)
        show ?thesis
        proof (cases "deviceEntryLen < length (Fields line)")
          case False
          with sc Some dev Ok "1.prems" have "mountsLoop fr s1 (mounts @ [m]) = Inr (ms, Some e)"
            by (subst (asm) mountsLoop.simps) simp
          with ih(3) [OF dev Ok False] show ?thesis .
        next
          case long: True
          show ?thesis
          proof (cases "Type m \<noteq> nfs3Type \<and> Type m \<noteq> nfs4Type")
            case True
            with sc Some dev Ok long "1.prems" show ?thesis
              by (subst (asm) mountsLoop.simps) simp
          next
            case nfs: False
            obtain r s2 where nf: "parseMountStatsNFS fr s1
                (TrimPrefix (Fields line ! 8) statVersionPrefix) = (r, s2)"
              by (cases "parseMountStatsNFS fr s1 (TrimPrefix (Fields line ! 8) statVersionPrefix)")
            show ?thesis
            proof (cases r)
              case (Err e')
              with sc Some dev Ok long nfs nf "1.prems" show ?thesis
                by (subst (asm) mountsLoop.simps) auto
            next
              case (Panic p)
              with sc Some dev Ok long nfs nf "1.prems" show ?thesis
                by (subst (asm) mountsLoop.simps) auto
            next
              case st: (Ok stats)
              with sc Some dev Ok long nfs nf "1.prems"
              have "mountsLoop fr s2 (mounts @ [m\<lparr>Stats := Some stats\<rparr>]) = Inr (ms, Some e)"
                by (subst (asm) mountsLoop.simps) auto
              with ih(2) [OF dev Ok long nfs nf [symmetric] st] show ?thesis .
            qed
          qed
        qed
      qed
    qed
  qed
qed

lemmas driver_eval =
  parseMountStats_def mountsLoop.simps parseMountStatsNFS_def statsLoop.simps
  parseNFSOperationStats_def opsLoop.simps parseMount_def format_def deviceEntryLen_def device_def
  nfs3Type_def nfs4Type_def statVersionPrefix_def TrimPrefix_def HasPrefix_def TrimSuffix_def
  HasSuffix_def numFields_def newStats_def mulDuration_def wrap64_def Millisecond_def Second_def

subsection \<open>A statistics block without the per-operation marker\<close>

text \<open>
  C4. The claim does not hold of the code: when the first loop of \<^verbatim>\<open>parseMountStatsNFS\<close>
  ends on a blank line, the per-operation parser called after it reads on from the next line.
  A nine-token line there becomes an operation of the block; a following device line fails
  the whole parse.
\<close>

theorem parseMountStatsNFS_reads_past_blank_line:
  "fst (parseMountStatsNFS truncFraction
          (NewScanner [''age: 7'', '''', ''READ: 1 2 3 4 5 6 7 8''] None) ''1.1'') =
     Ok ((newStats ''1.1'')
          \<lparr>Age := 7 * Second,
           Operations :=
             [\<lparr>Operation = ''READ'', Requests = 1, Transmissions = 2, MajorTimeouts = 3,
               BytesSent = 4, BytesReceived = 5, CumulativeQueueTime = 6 * Millisecond,
               CumulativeTotalResponseTime = 7 * Millisecond,
               CumulativeTotalRequestTime = 8 * Millisecond\<rparr>]\<rparr>) \<and>
   parseMountStats truncFraction
     (NewScanner [''device srv:/x mounted on /mnt with fstype nfs statvers=1.1'',
                  ''age: 7'',
                  '''',
                  ''device /dev/sda1 mounted on / with fstype ext4''] None) =
     Inr ([], Some (InvalidPerOpStats
       [''device'', ''/dev/sda1'', ''mounted'', ''on'', ''/'', ''with'', ''fstype'', ''ext4'']))"
  by (simp add: driver_eval scanner_eval Fields_eval decoder_eval)

subsection \<open>The statistics version\<close>

lemma statsLoop_reaches:
  assumes "pending s = blk @ (l, e) # rest" and "list_all (statLine fr v) (map fst blk)"
  shows "\<exists>s0 s1 st. Scan s0 = (Some l, s1) \<and> statsLoop fr v s (newStats v) = statsLoop fr v s0 st"
proof -
  have "pending (skipLines (length blk) s) = (l, e) # rest"
    using skipLines_pending [OF assms(1)] .
  from Scan_Cons [OF this] statsLoop_block [OF assms, of "newStats v"] show ?thesis
    by blast
qed

lemma parseMountStatsNFS_Err:
  "statsLoop fr v s (newStats v) = (Err e, s') \<Longrightarrow> parseMountStatsNFS fr s v = (Err e, s')"
  by (simp add: parseMountStatsNFS_def)

text \<open>
  C5, as amended. Let the version of the device line be neither \<^verbatim>\<open>1.0\<close> nor \<^verbatim>\<open>1.1\<close>.
  When the statistics block reaches a line \<^verbatim>\<open>xprt:\<close> of at least three tokens (the lines
  \<open>blk\<close> before it have at least two tokens each, are not the per-operation marker and are
  decoded without error), the parse of the statistics fails with the
  unrecognized-version error, and the driver returns this error with no records.
\<close>

theorem unrecognized_version_at_xprt_line:
  assumes "Scan s0 = (Some dl, s)"
    and "Fields dl ! 0 = ''device''" and "8 < length (Fields dl)"
    and "parseMount (Fields dl) = Ok m"
    and "Type m = ''nfs'' \<or> Type m = ''nfs4''"
    and "v = TrimPrefix (Fields dl ! 8) ''statvers=''"
    and "v \<noteq> ''1.0''" and "v \<noteq> ''1.1''"
    and "pending s = blk @ (l, e) # rest"
    and "list_all (statLine fr v) (map fst blk)"
    and "Fields l ! 0 = ''xprt:''" and "3 \<le> length (Fields l)"
  shows "fst (parseMountStatsNFS fr s v) = Err (UnrecognizedTransportVersion v) \<and>
    mountsLoop fr s0 mounts = Inr ([], Some (UnrecognizedTransportVersion v))"
proof -
  from statsLoop_reaches [OF assms(9,10)] obtain s1 s2 st
    where sc: "Scan s1 = (Some l, s2)"
      and eq: "statsLoop fr v s (newStats v) = statsLoop fr v s1 st"
    by blast
  from assms(7,8) have "parseNFSTransportStats (drop 2 (Fields l)) v =
      Err (UnrecognizedTransportVersion v)"
    by (simp add: parseNFSTransportStats_def statVersion10_def statVersion11_def)
  with assms(11,12) have "statsSwitch fr v (Fields l) st = Err (UnrecognizedTransportVersion v)"
    by (simp add: statsSwitch_def fieldAge_def fieldBytes_def fieldEvents_def fieldTransport_def)
  with sc assms(12) have "statsLoop fr v s1 st = (Err (UnrecognizedTransportVersion v), s2)"
    by (subst statsLoop.simps) auto
  with eq have nfs: "parseMountStatsNFS fr s v = (Err (UnrecognizedTransportVersion v), s2)"
    using parseMountStatsNFS_Err by simp
  with assms(1-6) have "mountsLoop fr s0 mounts = Inr ([], Some (UnrecognizedTransportVersion v))"
    by (subst mountsLoop.simps)
      (auto simp: device_def deviceEntryLen_def nfs3Type_def nfs4Type_def statVersionPrefix_def)
  with nfs show ?thesis
    by simp
qed

theorem unrecognized_version_at_xprt_line_witness:
  "parseMountStats truncFraction
     (NewScanner [''device srv:/x mounted on /mnt with fstype nfs4 statvers=2.0'',
                  ''age: 7'',
                  ''xprt: tcp 832 0''] None) =
     Inr ([], Some (UnrecognizedTransportVersion ''2.0''))"
proof -
  define dl where "dl = ''device srv:/x mounted on /mnt with fstype nfs4 statvers=2.0''"
  define s where "s = NewScanner [''age: 7'', ''xprt: tcp 832 0''] None"
  define m where "m = \<lparr>Device = ''srv:/x'', Mount = ''/mnt'', Type = ''nfs4'', Stats = None\<rparr>"
  have fd: "Fields dl ! 0 = ''device''" "8 < length (Fields dl)" "parseMount (Fields dl) = Ok m"
    "''2.0'' = TrimPrefix (Fields dl ! 8) ''statvers=''"
    by (simp_all add: dl_def m_def Fields_eval parseMount_def format_def deviceEntryLen_def
        TrimPrefix_def HasPrefix_def)
  have sc: "Scan (NewScanner [dl, ''age: 7'', ''xprt: tcp 832 0''] None) = (Some dl, s)"
    by (simp add: s_def scanner_eval)
  have p: "pending s = [(''age: 7'', None)] @ (''xprt: tcp 832 0'', None) # []"
    by (simp add: s_def NewScanner_def)
  have blk: "list_all (statLine truncFraction ''2.0'') (map fst [(''age: 7'', None :: string option)])"
    by (simp add: statLine_def Fields_eval decoder_eval newStats_def)
  have x: "Fields ''xprt: tcp 832 0'' ! 0 = ''xprt:''" "3 \<le> length (Fields ''xprt: tcp 832 0'')"
    by (simp_all add: Fields_eval)
  have t: "Type m = ''nfs'' \<or> Type m = ''nfs4''"
    by (simp add: m_def)
  from unrecognized_version_at_xprt_line [OF sc fd(1,2,3) t fd(4) _ _ p blk x, of "[]"]
  show ?thesis
    by (simp add: parseMountStats_def dl_def)
qed

text \<open>
  C5 as stated fails: without an \<^verbatim>\<open>xprt:\<close> line the version is never examined, and the
  statistics of a device line with the version \<^verbatim>\<open>2.0\<close> are parsed and returned.
\<close>

theorem unrecognized_version_accepted:
  "parseMountStats truncFraction
     (NewScanner [''device srv:/x mounted on /mnt with fstype nfs4 statvers=2.0'',
                  ''age: 7''] None) =
     Inr ([\<lparr>Device = ''srv:/x'', Mount = ''/mnt'', Type = ''nfs4'',
            Stats = Some ((newStats ''2.0'')\<lparr>Age := 7 * Second\<rparr>)\<rparr>], None)"
  by (simp add: driver_eval scanner_eval Fields_eval decoder_eval)

subsection \<open>Failing steps of the driver\<close>

lemma mountsLoop_device:
  assumes "Scan s0 = (Some dl, s)" and "Fields dl \<noteq> []" and "Fields dl ! 0 = ''device''"
  shows "parseMount (Fields dl) = Err e \<Longrightarrow> mountsLoop fr s0 mounts = Inr ([], Some e)"
    and "parseMount (Fields dl) = Ok m \<Longrightarrow> 8 < length (Fields dl) \<Longrightarrow>
      Type m \<noteq> ''nfs'' \<Longrightarrow> Type m \<noteq> ''nfs4'' \<Longrightarrow>
      mountsLoop fr s0 mounts = Inr ([], Some (CannotParseFstype (Type m)))"
    and "parseMount (Fields dl) = Ok m \<Longrightarrow> 8 < length (Fields dl) \<Longrightarrow>
      Type m = ''nfs'' \<or> Type m = ''nfs4'' \<Longrightarrow>
      fst (parseMountStatsNFS fr s (TrimPrefix (Fields dl ! 8) ''statvers='')) = Err e \<Longrightarrow>
      mountsLoop fr s0 mounts = Inr ([], Some e)"
proof -
  show "mountsLoop fr s0 mounts = Inr ([], Some e)" if "parseMount (Fields dl) = Err e"
    using assms that by (subst mountsLoop.simps) (simp add: device_def)
  show "mountsLoop fr s0 mounts = Inr ([], Some (CannotParseFstype (Type m)))"
    if "parseMount (Fields dl) = Ok m" and "8 < length (Fields dl)"
      and "Type m \<noteq> ''nfs''" and "Type m \<noteq> ''nfs4''"
    using assms that
    by (subst mountsLoop.simps) (simp add: device_def deviceEntryLen_def nfs3Type_def nfs4Type_def)
  show "mountsLoop fr s0 mounts = Inr ([], Some e)"
    if "parseMount (Fields dl) = Ok m" and "8 < length (Fields dl)"
      and "Type m = ''nfs'' \<or> Type m = ''nfs4''"
      and "fst (parseMountStatsNFS fr s (TrimPrefix (Fields dl ! 8) ''statvers='')) = Err e"
  proof -
    from that(4) obtain s2
      where "parseMountStatsNFS fr s (TrimPrefix (Fields dl ! 8) ''statvers='') = (Err e, s2)"
      by (cases "parseMountStatsNFS fr s (TrimPrefix (Fields dl ! 8) ''statvers='')") simp
    with assms that(1-3) show ?thesis
      by (subst mountsLoop.simps)
        (auto simp: device_def deviceEntryLen_def nfs3Type_def nfs4Type_def statVersionPrefix_def)
  qed
qed

lemma mountsLoop_stop: "Scan s0 = (None, s1) \<Longrightarrow> mountsLoop fr s0 mounts = Inr (mounts, ScanErr s1)"
  by (subst mountsLoop.simps) simp

lemma statsSwitch_Err:
  "statsSwitch fr v ss st = Err e \<Longrightarrow> statsSwitch fr v ss st' = Err e"
  unfolding statsSwitch_cases [of fr v ss]
  by (auto split: if_splits sum.splits result.splits)

lemma statsLoop_rejects:
  assumes "pending s = blk @ (l, x) # rest" and "list_all (statLine fr v) (map fst blk)"
  shows "length (Fields l) = 1 \<Longrightarrow>
      fst (parseMountStatsNFS fr s v) = Err (NotEnoughNFSInfo (Fields l))"
    and "2 \<le> length (Fields l) \<Longrightarrow> statsSwitch fr v (Fields l) (newStats v) = Err e \<Longrightarrow>
      fst (parseMountStatsNFS fr s v) = Err e"
proof -
  from statsLoop_reaches [OF assms] obtain s1 s2 st
    where sc: "Scan s1 = (Some l, s2)"
      and eq: "statsLoop fr v s (newStats v) = statsLoop fr v s1 st"
    by blast
  show "fst (parseMountStatsNFS fr s v) = Err (NotEnoughNFSInfo (Fields l))"
    if "length (Fields l) = 1"
  proof -
    from sc that have "statsLoop fr v s1 st = (Err (NotEnoughNFSInfo (Fields l)), s2)"
      by (subst statsLoop.simps) simp
    with eq show ?thesis
      using parseMountStatsNFS_Err by simp
  qed
  show "fst (parseMountStatsNFS fr s v) = Err e"
    if "2 \<le> length (Fields l)" and "statsSwitch fr v (Fields l) (newStats v) = Err e"
  proof -
    from that(2) have "statsSwitch fr v (Fields l) st = Err e"
      by (rule statsSwitch_Err)
    with sc that(1) have "statsLoop fr v s1 st = (Err e, s2)"
      by (subst statsLoop.simps) auto
    with eq show ?thesis
      using parseMountStatsNFS_Err by simp
  qed
qed

lemma statsLoop_after:
  assumes "pending s = blk @ rest" and "list_all (statLine fr v) (map fst blk)"
    and "statsEnd (skipLines (length blk) s)"
  shows "ScanErr (snd (Scan (skipLines (length blk) s))) = Some e \<Longrightarrow>
      fst (parseMountStatsNFS fr s v) = Err e"
    and "ScanErr (snd (Scan (skipLines (length blk) s))) = None \<Longrightarrow>
      fst (parseNFSOperationStats (snd (Scan (skipLines (length blk) s)))) = (ops, Some e) \<Longrightarrow>
      fst (parseMountStatsNFS fr s v) = Err e"
proof -
  define st1 where "st1 = foldl (applyLine fr v) (newStats v) (map fst blk)"
  have loop: "statsLoop fr v s (newStats v) = (Ok st1, snd (Scan (skipLines (length blk) s)))"
    using statsLoop_block [OF assms(1,2), of "newStats v"] statsLoop_end [OF assms(3), of fr v st1]
    by (simp add: st1_def)
  show "fst (parseMountStatsNFS fr s v) = Err e"
    if "ScanErr (snd (Scan (skipLines (length blk) s))) = Some e"
    using loop that by (simp add: parseMountStatsNFS_def)
  show "fst (parseMountStatsNFS fr s v) = Err e"
    if "ScanErr (snd (Scan (skipLines (length blk) s))) = None"
      and "fst (parseNFSOperationStats (snd (Scan (skipLines (length blk) s)))) = (ops, Some e)"
  proof -
    from that(2) obtain s2
      where "parseNFSOperationStats (snd (Scan (skipLines (length blk) s))) = ((ops, Some e), s2)"
      by (cases "parseNFSOperationStats (snd (Scan (skipLines (length blk) s)))") simp
    with loop that(1) show ?thesis
      by (simp add: parseMountStatsNFS_def)
  qed
qed

lemma opsLoop_rejects:
  assumes "pending s = blk @ (l, x) # rest" and "list_all opLine (map fst blk)"
  shows "Fields l \<noteq> [] \<Longrightarrow> length (Fields l) \<noteq> 9 \<Longrightarrow>
      fst (parseNFSOperationStats s) = ([], Some (InvalidPerOpStats (Fields l)))"
    and "length (Fields l) = 9 \<Longrightarrow> atoiLoop (tl (Fields l)) = Inl e \<Longrightarrow>
      fst (parseNFSOperationStats s) = ([], Some e)"
proof -
  from opsLoop_block [OF assms, of "[]"] obtain recs
    where loop: "opsLoop s [] = opsLoop (skipLines (length blk) s) recs"
    by auto
  have "pending (skipLines (length blk) s) = (l, x) # rest"
    using skipLines_pending [OF assms(1)] .
  note sc = Scan_Cons [OF this]
  show "fst (parseNFSOperationStats s) = ([], Some (InvalidPerOpStats (Fields l)))"
    if "Fields l \<noteq> []" and "length (Fields l) \<noteq> 9"
  proof -
    from sc that
    have "fst (opsLoop (skipLines (length blk) s) recs) = ([], Some (InvalidPerOpStats (Fields l)))"
      by (subst opsLoop.simps) (simp add: numFields_def)
    with loop show ?thesis
      by (simp add: parseNFSOperationStats_def)
  qed
  show "fst (parseNFSOperationStats s) = ([], Some e)"
    if "length (Fields l) = 9" and "atoiLoop (tl (Fields l)) = Inl e"
  proof -
    from sc that
    have "fst (opsLoop (skipLines (length blk) s) recs) = ([], Some e)"
      by (subst opsLoop.simps) (simp add: numFields_def)
    with loop show ?thesis
      by (simp add: parseNFSOperationStats_def)
  qed
qed

text \<open>
  C7, as amended. A step of the driver that fails makes the driver return the step's error
  and no mount records, whatever records \<open>mounts\<close> it has built by then: a device line
  that \<^verbatim>\<open>parseMount\<close> rejects, a device line with more than eight tokens and a type other
  than \<^verbatim>\<open>nfs\<close> and \<^verbatim>\<open>nfs4\<close>, and every error of the NFS statistics parser. The NFS
  statistics parser returns an error for a line of one token, for a line the switch rejects
  (a bad field count, a token that is not an integer, an unrecognized version), for an error
  of the stream met while it reads the statistics block, and for an error of the
  per-operation parser, which rejects a non-blank line whose token count is not 9 and a token
  that is not an integer. Only when \<^verbatim>\<open>Scan\<close> returns false in the driver's own loop does
  the driver return the records built so far, together with \<^verbatim>\<open>s.Err()\<close>; so an error
  returned with records is the stream's.
\<close>

theorem parseMountStats_failing_step:
  "(Scan s0 = (Some dl, s) \<and> Fields dl \<noteq> [] \<and> Fields dl ! 0 = ''device'' \<and>
    parseMount (Fields dl) = Err e \<longrightarrow>
      mountsLoop fr s0 mounts = Inr ([], Some e)) \<and>
   (Scan s0 = (Some dl, s) \<and> Fields dl \<noteq> [] \<and> Fields dl ! 0 = ''device'' \<and>
    parseMount (Fields dl) = Ok m \<and> 8 < length (Fields dl) \<and>
    Type m \<noteq> ''nfs'' \<and> Type m \<noteq> ''nfs4'' \<longrightarrow>
      mountsLoop fr s0 mounts = Inr ([], Some (CannotParseFstype (Type m)))) \<and>
   (Scan s0 = (Some dl, s) \<and> Fields dl \<noteq> [] \<and> Fields dl ! 0 = ''device'' \<and>
    parseMount (Fields dl) = Ok m \<and> 8 < length (Fields dl) \<and>
    (Type m = ''nfs'' \<or> Type m = ''nfs4'') \<and>
    fst (parseMountStatsNFS fr s (TrimPrefix (Fields dl ! 8) ''statvers='')) = Err e \<longrightarrow>
      mountsLoop fr s0 mounts = Inr ([], Some e)) \<and>
   (pending s = blk @ (l, x) # rest \<and> list_all (statLine fr v) (map fst blk) \<and>
    length (Fields l) = 1 \<longrightarrow>
      fst (parseMountStatsNFS fr s v) = Err (NotEnoughNFSInfo (Fields l))) \<and>
   (pending s = blk @ (l, x) # rest \<and> list_all (statLine fr v) (map fst blk) \<and>
    2 \<le> length (Fields l) \<and> statsSwitch fr v (Fields l) (newStats v) = Err e \<longrightarrow>
      fst (parseMountStatsNFS fr s v) = Err e) \<and>
   (pending s = blk @ rest \<and> list_all (statLine fr v) (map fst blk) \<and>
    statsEnd (skipLines (length blk) s) \<and>
    ScanErr (snd (Scan (skipLines (length blk) s))) = Some e \<longrightarrow>
      fst (parseMountStatsNFS fr s v) = Err e) \<and>
   (pending s = blk @ rest \<and> list_all (statLine fr v) (map fst blk) \<and>
    statsEnd (skipLines (length blk) s) \<and>
    ScanErr (snd (Scan (skipLines (length blk) s))) = None \<and>
    fst (parseNFSOperationStats (snd (Scan (skipLines (length blk) s)))) = (ops, Some e) \<longrightarrow>
      fst (parseMountStatsNFS fr s v) = Err e) \<and>
   (pending so = blk @ (l, x) # rest \<and> list_all opLine (map fst blk) \<and>
    Fields l \<noteq> [] \<and> length (Fields l) \<noteq> 9 \<longrightarrow>
      fst (parseNFSOperationStats so) = ([], Some (InvalidPerOpStats (Fields l)))) \<and>
   (pending so = blk @ (l, x) # rest \<and> list_all opLine (map fst blk) \<and>
    length (Fields l) = 9 \<and> atoiLoop (tl (Fields l)) = Inl e \<longrightarrow>
      fst (parseNFSOperationStats so) = ([], Some e)) \<and>
   (Scan s0 = (None, s1) \<longrightarrow> mountsLoop fr s0 mounts = Inr (mounts, ScanErr s1)) \<and>
   (parseMountStats fr s0 = Inr (ms, Some e) \<longrightarrow> ms = [] \<or> (\<exists>y. e = ScanError y))"
  apply (intro conjI impI)
            apply (elim conjE, erule (3) mountsLoop_device(1))
           apply (elim conjE, erule (6) mountsLoop_device(2))
          apply (elim conjE, erule (6) mountsLoop_device(3))
         apply (elim conjE, erule (2) statsLoop_rejects(1))
        apply (elim conjE, erule (3) statsLoop_rejects(2))
       apply (elim conjE, erule (3) statsLoop_after(1))
      apply (elim conjE, erule (4) statsLoop_after(2))
     apply (elim conjE, erule (3) opsLoop_rejects(1))
    apply (elim conjE, erule (3) opsLoop_rejects(2))
   apply (erule mountsLoop_stop)
  apply (simp only: parseMountStats_def, erule mountsLoop_error)
  done

theorem parseMountStats_failing_step_witness:
  "parseMountStats truncFraction
     (NewScanner [''device /dev/sda1 mounted on / with fstype ext4'',
                  ''device /dev/sdb1 mounted at /home with fstype ext4''] None) =
     Inr ([], Some (InvalidDeviceEntry
       [''device'', ''/dev/sdb1'', ''mounted'', ''at'', ''/home'', ''with'', ''fstype'', ''ext4''])) \<and>
   parseMountStats truncFraction
     (NewScanner [''device /dev/sda1 mounted on / with fstype ext4'',
                  ''device /dev/sdb1 mounted on /home with fstype ext4 statvers=1.1''] None) =
     Inr ([], Some (CannotParseFstype ''ext4'')) \<and>
   parseMountStats truncFraction
     (NewScanner [''device /dev/sda1 mounted on / with fstype ext4'',
                  ''device srv:/x mounted on /mnt with fstype nfs statvers=1.1'',
                  ''age: 7'',
                  ''bytes: 260 0 13''] None) =
     Inr ([], Some (InvalidBytesStats [''260'', ''0'', ''13''])) \<and>
   parseMountStats truncFraction
     (NewScanner [''device /dev/sda1 mounted on / with fstype ext4'',
                  ''device srv:/x mounted on /mnt with fstype nfs statvers=1.1'',
                  ''age: 7'',
                  ''bytes: 260 0 13 0 rw 48 7 8''] None) =
     Inr ([], Some (NumError ''rw'' ErrSyntax)) \<and>
   parseMountStats truncFraction
     (NewScanner [''device /dev/sda1 mounted on / with fstype ext4'',
                  ''device srv:/x mounted on /mnt with fstype nfs statvers=1.1'',
                  ''age: 7''] (Some ''read error'')) =
     Inr ([], Some (ScanError ''read error'')) \<and>
   parseMountStats truncFraction
     (NewScanner [''device /dev/sda1 mounted on / with fstype ext4'',
                  ''device /dev/sdb1 mounted on /home with fstype ext4''] (Some ''read error'')) =
     Inr ([\<lparr>Device = ''/dev/sda1'', Mount = ''/'', Type = ''ext4'', Stats = None\<rparr>,
           \<lparr>Device = ''/dev/sdb1'', Mount = ''/home'', Type = ''ext4'', Stats = None\<rparr>],
          Some (ScanError ''read error''))"
proof -
  define fr where "fr = truncFraction"
  define e4 where "e4 = ''device /dev/sda1 mounted on / with fstype ext4''"
  define r4 where "r4 = \<lparr>Device = ''/dev/sda1'', Mount = ''/'', Type = ''ext4'', Stats = None\<rparr>"
  define nl where "nl = ''device srv:/x mounted on /mnt with fstype nfs statvers=1.1''"
  define rn where "rn = \<lparr>Device = ''srv:/x'', Mount = ''/mnt'', Type = ''nfs'', Stats = None\<rparr>"
  have sc: "Scan (NewScanner (l # L) fin) = (Some l, NewScanner L fin)" for l L fin
    by (simp add: scanner_eval)
  have f4: "Fields e4 \<noteq> []" "Fields e4 ! 0 = device" "parseMount (Fields e4) = Ok r4"
    "\<not> deviceEntryLen < length (Fields e4)"
    by (simp_all add: e4_def r4_def Fields_eval parseMount_def format_def deviceEntryLen_def
        device_def)
  have start: "parseMountStats fr (NewScanner (e4 # L) fin) = mountsLoop fr (NewScanner L fin) [r4]"
    for L fin
    unfolding parseMountStats_def using sc [of e4 L fin] f4
    by (subst mountsLoop.simps) simp
  have fn: "Fields nl \<noteq> []" "Fields nl ! 0 = ''device''" "parseMount (Fields nl) = Ok rn"
    "8 < length (Fields nl)" "TrimPrefix (Fields nl ! 8) ''statvers='' = ''1.1''"
    and tn: "Type rn = ''nfs'' \<or> Type rn = ''nfs4''"
    by (simp_all add: nl_def rn_def Fields_eval parseMount_def format_def deviceEntryLen_def
        TrimPrefix_def HasPrefix_def)
  have age: "list_all (statLine fr ''1.1'') (map fst [(''age: 7'', None :: string option)])"
    by (simp add: fr_def statLine_def Fields_eval decoder_eval newStats_def)
  have pn: "pending (NewScanner (''age: 7'' # l # L) fin) =
      [(''age: 7'', None)] @ (l, None) # map (\<lambda>l. (l, None)) L" for l L fin
    by (simp add: NewScanner_def)
  note dev_fails = parseMountStats_failing_step [THEN conjunct1, rule_format]
  note fstype_fails = parseMountStats_failing_step [THEN conjunct2, THEN conjunct1, rule_format]
  note nfs_fails =
    parseMountStats_failing_step [THEN conjunct2, THEN conjunct2, THEN conjunct1, rule_format]
  note line_fails =
    parseMountStats_failing_step [THEN conjunct2, THEN conjunct2, THEN conjunct2, THEN conjunct2,
      THEN conjunct1, rule_format]
  note stream_fails =
    parseMountStats_failing_step [THEN conjunct2, THEN conjunct2, THEN conjunct2, THEN conjunct2,
      THEN conjunct2, THEN conjunct1, rule_format]
  note loop_ends =
    parseMountStats_failing_step [THEN conjunct2, THEN conjunct2, THEN conjunct2, THEN conjunct2,
      THEN conjunct2, THEN conjunct2, THEN conjunct2, THEN conjunct2, THEN conjunct2,
      THEN conjunct1, rule_format]
  have w1: "parseMountStats fr
      (NewScanner [e4, ''device /dev/sdb1 mounted at /home with fstype ext4''] None) =
      Inr ([], Some (InvalidDeviceEntry
        [''device'', ''/dev/sdb1'', ''mounted'', ''at'', ''/home'', ''with'', ''fstype'', ''ext4'']))"
  proof -
    have "Fields ''device /dev/sdb1 mounted at /home with fstype ext4'' =
        [''device'', ''/dev/sdb1'', ''mounted'', ''at'', ''/home'', ''with'', ''fstype'', ''ext4'']"
      by (simp add: Fields_eval)
    then show ?thesis
      using dev_fails [of "NewScanner [''device /dev/sdb1 mounted at /home with fstype ext4''] None"
          "''device /dev/sdb1 mounted at /home with fstype ext4''" "NewScanner [] None"
          "InvalidDeviceEntry [''device'', ''/dev/sdb1'', ''mounted'', ''at'', ''/home'', ''with'',
             ''fstype'', ''ext4'']" fr "[r4]"] sc
      by (simp add: start parseMount_def format_def deviceEntryLen_def)
  qed
  have w2: "parseMountStats fr
      (NewScanner [e4, ''device /dev/sdb1 mounted on /home with fstype ext4 statvers=1.1''] None) =
      Inr ([], Some (CannotParseFstype ''ext4''))"
  proof -
    have "Fields ''device /dev/sdb1 mounted on /home with fstype ext4 statvers=1.1'' =
        [''device'', ''/dev/sdb1'', ''mounted'', ''on'', ''/home'', ''with'', ''fstype'', ''ext4'',
         ''statvers=1.1'']"
      by (simp add: Fields_eval)
    then show ?thesis
      using fstype_fails
        [of "NewScanner [''device /dev/sdb1 mounted on /home with fstype ext4 statvers=1.1''] None"
          "''device /dev/sdb1 mounted on /home with fstype ext4 statvers=1.1''" "NewScanner [] None"
          "\<lparr>Device = ''/dev/sdb1'', Mount = ''/home'', Type = ''ext4'', Stats = None\<rparr>" fr "[r4]"]
        sc
      by (simp add: start parseMount_def format_def deviceEntryLen_def)
  qed
  have nfs: "parseMountStats fr (NewScanner (e4 # nl # L) fin) = Inr ([], Some e)"
    if "fst (parseMountStatsNFS fr (NewScanner L fin) ''1.1'') = Err e" for L fin e
    using nfs_fails [of "NewScanner (nl # L) fin" nl "NewScanner L fin" rn fr e "[r4]"]
      sc [of nl L fin] fn tn that
    by (simp add: start)
  have w3: "parseMountStats fr (NewScanner [e4, nl, ''age: 7'', ''bytes: 260 0 13''] None) =
      Inr ([], Some (InvalidBytesStats [''260'', ''0'', ''13'']))"
  proof -
    have f: "Fields ''bytes: 260 0 13'' = [''bytes:'', ''260'', ''0'', ''13'']"
      by (simp add: Fields_eval)
    have "statsSwitch fr ''1.1'' (Fields ''bytes: 260 0 13'') (newStats ''1.1'') =
        Err (InvalidBytesStats [''260'', ''0'', ''13''])"
      by (simp add: f decoder_eval)
    with line_fails [of "NewScanner [''age: 7'', ''bytes: 260 0 13''] None"
        "[(''age: 7'', None)]" "''bytes: 260 0 13''" None "[]" fr "''1.1''"
        "InvalidBytesStats [''260'', ''0'', ''13'']"] age pn [of "''bytes: 260 0 13''" "[]" None] f
    have "fst (parseMountStatsNFS fr (NewScanner [''age: 7'', ''bytes: 260 0 13''] None) ''1.1'') =
        Err (InvalidBytesStats [''260'', ''0'', ''13''])"
      by simp
    then show ?thesis
      by (rule nfs)
  qed
  have w4: "parseMountStats fr
      (NewScanner [e4, nl, ''age: 7'', ''bytes: 260 0 13 0 rw 48 7 8''] None) =
      Inr ([], Some (NumError ''rw'' ErrSyntax))"
  proof -
    have f: "Fields ''bytes: 260 0 13 0 rw 48 7 8'' =
        [''bytes:'', ''260'', ''0'', ''13'', ''0'', ''rw'', ''48'', ''7'', ''8'']"
      by (simp add: Fields_eval)
    have "statsSwitch fr ''1.1'' (Fields ''bytes: 260 0 13 0 rw 48 7 8'') (newStats ''1.1'') =
        Err (NumError ''rw'' ErrSyntax)"
      by (simp add: f decoder_eval)
    with line_fails [of "NewScanner [''age: 7'', ''bytes: 260 0 13 0 rw 48 7 8''] None"
        "[(''age: 7'', None)]" "''bytes: 260 0 13 0 rw 48 7 8''" None "[]" fr "''1.1''"
        "NumError ''rw'' ErrSyntax"] age pn [of "''bytes: 260 0 13 0 rw 48 7 8''" "[]" None] f
    have "fst (parseMountStatsNFS fr
        (NewScanner [''age: 7'', ''bytes: 260 0 13 0 rw 48 7 8''] None) ''1.1'') =
        Err (NumError ''rw'' ErrSyntax)"
      by simp
    then show ?thesis
      by (rule nfs)
  qed
  have w5: "parseMountStats fr (NewScanner [e4, nl, ''age: 7''] (Some ''read error'')) =
      Inr ([], Some (ScanError ''read error''))"
  proof -
    have "fst (parseMountStatsNFS fr (NewScanner [''age: 7''] (Some ''read error'')) ''1.1'') =
        Err (ScanError ''read error'')"
      using stream_fails [of "NewScanner [''age: 7''] (Some ''read error'')" "[(''age: 7'', None)]"
          "[]" fr "''1.1''" "ScanError ''read error''"] age
      by (simp add: scanner_eval statsEnd_def)
    then show ?thesis
      by (rule nfs)
  qed
  have w6: "parseMountStats fr
      (NewScanner [e4, ''device /dev/sdb1 mounted on /home with fstype ext4'']
         (Some ''read error'')) =
      Inr ([r4, \<lparr>Device = ''/dev/sdb1'', Mount = ''/home'', Type = ''ext4'', Stats = None\<rparr>],
           Some (ScanError ''read error''))"
  proof -
    have f: "Fields ''device /dev/sdb1 mounted on /home with fstype ext4'' =
        [''device'', ''/dev/sdb1'', ''mounted'', ''on'', ''/home'', ''with'', ''fstype'', ''ext4'']"
      by (simp add: Fields_eval)
    have "mountsLoop fr
        (NewScanner [''device /dev/sdb1 mounted on /home with fstype ext4''] (Some ''read error''))
        [r4] =
      mountsLoop fr (NewScanner [] (Some ''read error''))
        [r4, \<lparr>Device = ''/dev/sdb1'', Mount = ''/home'', Type = ''ext4'', Stats = None\<rparr>]"
      using sc [of "''device /dev/sdb1 mounted on /home with fstype ext4''" "[]" "Some ''read error''"]
      by (subst mountsLoop.simps) (simp add: f parseMount_def format_def deviceEntryLen_def device_def)
    moreover have "mountsLoop fr (NewScanner [] (Some ''read error''))
        [r4, \<lparr>Device = ''/dev/sdb1'', Mount = ''/home'', Type = ''ext4'', Stats = None\<rparr>] =
      Inr ([r4, \<lparr>Device = ''/dev/sdb1'', Mount = ''/home'', Type = ''ext4'', Stats = None\<rparr>],
           Some (ScanError ''read error''))"
      using loop_ends [of "NewScanner [] (Some ''read error'')"
          "\<lparr>pending = [], final = Some ''read error'', err = Some ''read error''\<rparr>" fr
          "[r4, \<lparr>Device = ''/dev/sdb1'', Mount = ''/home'', Type = ''ext4'', Stats = None\<rparr>]"]
      by (simp add: scanner_eval)
    ultimately show ?thesis
      by (simp add: start)
  qed
  from w1 w2 w3 w4 w5 w6 show ?thesis
    by (simp add: fr_def e4_def r4_def nl_def)
qed

text \<open>
  C7 as stated fails: when the stream's error ends the driver's loop, the driver returns it
  together with the records parsed before.
\<close>

theorem parseMountStats_stream_error_with_records:
  "parseMountStats truncFraction
     (NewScanner [''device /dev/sda1 mounted on / with fstype ext4''] (Some ''read error'')) =
   Inr ([\<lparr>Device = ''/dev/sda1'', Mount = ''/'', Type = ''ext4'', Stats = None\<rparr>],
        Some (ScanError ''read error''))"
  by (simp add: driver_eval scanner_eval Fields_eval)

subsection \<open>The age line\<close>

lemma skipLines_Suc: "skipLines (Suc n) s = snd (Scan (skipLines n s))"
  by (induction n arbitrary: s) simp_all

lemma age_line_outcome:
  assumes "pending s = blk @ (l, e) # rest"
    and "list_all (statLine fr v) (map fst blk)"
    and "Fields l ! 0 = ''age:''" and "2 \<le> length (Fields l)"
  shows "ParseDuration fr (Fields l ! 1 @ ''s'') = Inr d \<Longrightarrow>
      statsLoop fr v s (newStats v) =
        statsLoop fr v (skipLines (Suc (length blk)) s)
          ((foldl (applyLine fr v) (newStats v) (map fst blk))\<lparr>Age := d\<rparr>)"
    and "ParseDuration fr (Fields l ! 1 @ ''s'') = Inl x \<Longrightarrow>
      fst (parseMountStatsNFS fr s v) = Err x"
proof -
  define s0 where "s0 = skipLines (length blk) s"
  define st where "st = foldl (applyLine fr v) (newStats v) (map fst blk)"
  have p0: "pending s0 = (l, e) # rest"
    unfolding s0_def using skipLines_pending [OF assms(1)] .
  define s1 where "s1 = s0\<lparr>pending := rest, err := sticky (err s0) e\<rparr>"
  have sc: "Scan s0 = (Some l, s1)"
    unfolding s1_def by (rule Scan_Cons [OF p0])
  have blk: "statsLoop fr v s (newStats v) = statsLoop fr v s0 st"
    unfolding s0_def st_def by (rule statsLoop_block [OF assms(1,2)])
  have sk: "skipLines (Suc (length blk)) s = s1"
    using sc by (simp only: skipLines_Suc s0_def [symmetric]) simp
  show "statsLoop fr v s (newStats v) =
        statsLoop fr v (skipLines (Suc (length blk)) s)
          ((foldl (applyLine fr v) (newStats v) (map fst blk))\<lparr>Age := d\<rparr>)"
    if "ParseDuration fr (Fields l ! 1 @ ''s'') = Inr d"
  proof -
    from that assms(3) have "statsSwitch fr v (Fields l) st = Ok (st\<lparr>Age := d\<rparr>)"
      by (simp add: statsSwitch_def fieldAge_def)
    with sc assms(3,4) have "statsLoop fr v s0 st = statsLoop fr v s1 (st\<lparr>Age := d\<rparr>)"
      by (subst statsLoop.simps) (auto simp: fieldPerOpStats_def)
    with blk sk show ?thesis
      by (simp add: st_def)
  qed
  show "fst (parseMountStatsNFS fr s v) = Err x"
    if "ParseDuration fr (Fields l ! 1 @ ''s'') = Inl x"
  proof -
    from that assms(3) have "statsSwitch fr v (Fields l) st = Err x"
      by (simp add: statsSwitch_def fieldAge_def)
    with sc assms(4) have "statsLoop fr v s0 st = (Err x, s1)"
      by (subst statsLoop.simps) auto
    with blk show ?thesis
      using parseMountStatsNFS_Err by simp
  qed
qed

text \<open>
  C6, as amended. At a line \<^verbatim>\<open>age:\<close> the parser reads the second token followed by
  \<^verbatim>\<open>s\<close> as a Go duration, and the outcome is that of \<^verbatim>\<open>time.ParseDuration\<close>: a
  duration \<open>d\<close> is stored as the age and the loop goes on; an error fails the parse of the
  statistics with that error. So an integer token of value \<open>n\<close> stores \<open>n\<close> seconds when
  \<open>\<bar>n\<bar> \<le> 9223372036\<close> and fails with the invalid-duration error beyond; a token with no
  decimal digit fails with the invalid-duration error; and when the token with its \<^verbatim>\<open>s\<close>
  is a sign, digits \<open>ds\<close>, a run \<open>w\<close> of unit characters that is none of the units
  \<^verbatim>\<open>ns\<close>, \<^verbatim>\<open>us\<close>, \<^verbatim>\<open>\<mu>s\<close>, \<^verbatim>\<open>ms\<close>, \<^verbatim>\<open>s\<close>, \<^verbatim>\<open>m\<close>, \<^verbatim>\<open>h\<close>, and a rest, the parse fails
  with the unknown-unit error (tokens such as \<^verbatim>\<open>5x\<close>, \<^verbatim>\<open>12abc\<close>, \<^verbatim>\<open>1e3\<close>). (The lines
  \<open>blk\<close> before the age line have at least two tokens each, are not the per-operation
  marker and are decoded without error.)
\<close>

theorem age_line_go_duration:
  assumes "pending s = blk @ (l, e) # rest"
    and "list_all (statLine fr v) (map fst blk)"
    and "Fields l ! 0 = ''age:''" and "2 \<le> length (Fields l)"
  shows "(ParseDuration fr (Fields l ! 1 @ ''s'') = Inr d \<longrightarrow>
      statsLoop fr v s (newStats v) =
        statsLoop fr v (skipLines (Suc (length blk)) s)
          ((foldl (applyLine fr v) (newStats v) (map fst blk))\<lparr>Age := d\<rparr>)) \<and>
    (ParseDuration fr (Fields l ! 1 @ ''s'') = Inl x \<longrightarrow>
      fst (parseMountStatsNFS fr s v) = Err x) \<and>
    (Atoi (Fields l ! 1) = Inr n \<and> \<bar>n\<bar> \<le> 9223372036 \<longrightarrow>
      statsLoop fr v s (newStats v) =
        statsLoop fr v (skipLines (Suc (length blk)) s)
          ((foldl (applyLine fr v) (newStats v) (map fst blk))\<lparr>Age := n * 1000000000\<rparr>)) \<and>
    (Atoi (Fields l ! 1) = Inr n \<and> 9223372036 < \<bar>n\<bar> \<longrightarrow>
      fst (parseMountStatsNFS fr s v) = Err (InvalidDuration (Fields l ! 1 @ ''s''))) \<and>
    (list_all (\<lambda>c. \<not> isDigit c) (Fields l ! 1) \<longrightarrow>
      fst (parseMountStatsNFS fr s v) = Err (InvalidDuration (Fields l ! 1 @ ''s''))) \<and>
    (Fields l ! 1 @ ''s'' = sg @ ds @ w @ r \<and> sg \<in> {[], ''+'', ''-''} \<and>
     ds \<noteq> [] \<and> list_all isDigit ds \<and> w \<noteq> [] \<and> list_all unitChar w \<and>
     (r = [] \<or> \<not> unitChar (hd r)) \<and>
     w \<notin> {''ns'', ''us'', [CHR 0xC2, CHR 0xB5, CHR ''s''], [CHR 0xCE, CHR 0xBC, CHR ''s''],
          ''ms'', ''s'', ''m'', ''h''} \<longrightarrow>
      fst (parseMountStatsNFS fr s v) =
        Err (if decimal ds \<le> 2 ^ 63 then UnknownUnit w (Fields l ! 1 @ ''s'')
             else InvalidDuration (Fields l ! 1 @ ''s'')))"
proof -
  note ok = age_line_outcome(1) [OF assms] and bad = age_line_outcome(2) [OF assms]
  have a: "statsLoop fr v s (newStats v) =
        statsLoop fr v (skipLines (Suc (length blk)) s)
          ((foldl (applyLine fr v) (newStats v) (map fst blk))\<lparr>Age := n * 1000000000\<rparr>)"
    if "Atoi (Fields l ! 1) = Inr n" and "\<bar>n\<bar> \<le> 9223372036"
  proof -
    from that have n: "- 9223372036854775808 \<le> n * 1000000000"
      "n * 1000000000 < 9223372036854775808"
      by linarith+
    from ParseDuration_Atoi [OF that, of fr] n
    have "ParseDuration fr (Fields l ! 1 @ ''s'') = Inr (n * 1000000000)"
      by (simp add: mulDuration_def Second_def wrap64_id)
    then show ?thesis
      by (rule ok)
  qed
  have b: "fst (parseMountStatsNFS fr s v) = Err (InvalidDuration (Fields l ! 1 @ ''s''))"
    if "Atoi (Fields l ! 1) = Inr n" and "9223372036 < \<bar>n\<bar>"
    using ParseDuration_Atoi_overflow [OF that, of fr] by (rule bad)
  have c: "fst (parseMountStatsNFS fr s v) = Err (InvalidDuration (Fields l ! 1 @ ''s''))"
    if "list_all (\<lambda>c. \<not> isDigit c) (Fields l ! 1)"
    using ParseDuration_no_digit [OF that, of fr] by (rule bad)
  have u: "fst (parseMountStatsNFS fr s v) =
        Err (if decimal ds \<le> 2 ^ 63 then UnknownUnit w (Fields l ! 1 @ ''s'')
             else InvalidDuration (Fields l ! 1 @ ''s''))"
    if t: "Fields l ! 1 @ ''s'' = sg @ ds @ w @ r" and sg: "sg \<in> {[], ''+'', ''-''}"
      and ds: "ds \<noteq> []" "list_all isDigit ds" and w: "w \<noteq> []" "list_all unitChar w"
      and r: "r = [] \<or> \<not> unitChar (hd r)"
      and un: "w \<notin> {''ns'', ''us'', [CHR 0xC2, CHR 0xB5, CHR ''s''],
          [CHR 0xCE, CHR 0xBC, CHR ''s''], ''ms'', ''s'', ''m'', ''h''}"
  proof -
    have "unitMap w = None"
      by (rule unitMap_None [THEN iffD2, OF un])
    from ParseDuration_unknown_unit [OF sg ds w r this, of fr]
    have "ParseDuration fr (Fields l ! 1 @ ''s'') =
        Inl (if decimal ds \<le> 2 ^ 63 then UnknownUnit w (Fields l ! 1 @ ''s'')
             else InvalidDuration (Fields l ! 1 @ ''s''))"
      by (simp only: t)
    then show ?thesis
      by (rule bad)
  qed
  show ?thesis
    apply (intro conjI impI)
         apply (erule ok)
        apply (erule bad)
       apply (elim conjE, erule (1) a)
      apply (elim conjE, erule (1) b)
     apply (erule c)
    apply (elim conjE, rule u; assumption)
    done
qed

theorem age_line_go_duration_witness:
  "Atoi ''7'' = Inr 7 \<and>
   fst (statsLoop truncFraction ''1.1'' (NewScanner [''opts: rw'', ''age: 7''] None)
          (newStats ''1.1'')) =
     Ok ((newStats ''1.1'')\<lparr>Age := 7 * Second\<rparr>) \<and>
   Atoi ''9223372037'' = Inr 9223372037 \<and>
   fst (parseMountStatsNFS truncFraction (NewScanner [''opts: rw'', ''age: 9223372037''] None)
          ''1.1'') =
     Err (InvalidDuration ''9223372037s'') \<and>
   list_all (\<lambda>c. \<not> isDigit c) ''soon'' \<and>
   fst (parseMountStatsNFS truncFraction (NewScanner [''opts: rw'', ''age: soon''] None) ''1.1'') =
     Err (InvalidDuration ''soons'') \<and>
   fst (parseMountStatsNFS truncFraction (NewScanner [''opts: rw'', ''age: 5x''] None) ''1.1'') =
     Err (UnknownUnit ''xs'' ''5xs'') \<and>
   fst (parseMountStatsNFS truncFraction (NewScanner [''opts: rw'', ''age: 1e3''] None) ''1.1'') =
     Err (UnknownUnit ''e'' ''1e3s'')"
proof -
  have o: "list_all (statLine truncFraction ''1.1'') (map fst [(''opts: rw'', None :: string option)])"
    by (simp add: statLine_def Fields_eval decoder_eval newStats_def)
  have p: "pending (NewScanner [''opts: rw'', l] None) = [(''opts: rw'', None)] @ (l, None) # []"
    for l
    by (simp add: NewScanner_def)
  have f7: "Fields ''age: 7'' ! 0 = ''age:''" "2 \<le> length (Fields ''age: 7'')"
    "Fields ''age: 7'' ! 1 = ''7''"
    by (simp_all add: Fields_eval)
  have fb: "Fields ''age: 9223372037'' ! 0 = ''age:''" "2 \<le> length (Fields ''age: 9223372037'')"
    "Fields ''age: 9223372037'' ! 1 = ''9223372037''"
    by (simp_all add: Fields_eval)
  have fs: "Fields ''age: soon'' ! 0 = ''age:''" "2 \<le> length (Fields ''age: soon'')"
    "Fields ''age: soon'' ! 1 = ''soon''"
    by (simp_all add: Fields_eval)
  have fx: "Fields ''age: 5x'' ! 0 = ''age:''" "2 \<le> length (Fields ''age: 5x'')"
    "Fields ''age: 5x'' ! 1 = ''5x''"
    by (simp_all add: Fields_eval)
  have fe: "Fields ''age: 1e3'' ! 0 = ''age:''" "2 \<le> length (Fields ''age: 1e3'')"
    "Fields ''age: 1e3'' ! 1 = ''1e3''"
    by (simp_all add: Fields_eval)
  have a7: "Atoi ''7'' = Inr 7" and ab: "Atoi ''9223372037'' = Inr 9223372037"
    by (simp_all add: Atoi_eval)
  have nd: "list_all (\<lambda>c. \<not> isDigit c) ''soon''"
    by (simp add: isDigit_def)
  have ap: "applyLine truncFraction ''1.1'' (newStats ''1.1'') ''opts: rw'' = newStats ''1.1''"
    by (simp add: applyLine_def Fields_eval decoder_eval)
  have dx: "decimal ''5'' = 5" "decimal ''1'' = 1" "list_all isDigit ''5''" "list_all isDigit ''1''"
    "list_all unitChar ''xs''" "list_all unitChar ''e''" "\<not> unitChar (hd ''3s'')"
    by (simp_all add: decimal_def digitVal_def isDigit_def unitChar_def)
  from age_line_go_duration [OF p o f7(1,2), where n = 7] a7 f7(3)
  have "statsLoop truncFraction ''1.1'' (NewScanner [''opts: rw'', ''age: 7''] None)
      (newStats ''1.1'') =
    statsLoop truncFraction ''1.1''
      (skipLines 2 (NewScanner [''opts: rw'', ''age: 7''] None))
      ((newStats ''1.1'')\<lparr>Age := 7000000000\<rparr>)"
    by (simp add: ap numeral_2_eq_2)
  then have c1: "fst (statsLoop truncFraction ''1.1'' (NewScanner [''opts: rw'', ''age: 7''] None)
      (newStats ''1.1'')) = Ok ((newStats ''1.1'')\<lparr>Age := 7 * Second\<rparr>)"
    by (simp add: numeral_2_eq_2 scanner_eval Second_def statsLoop.simps)
  from age_line_go_duration [OF p o fb(1,2), where n = 9223372037] ab fb(3)
  have c2: "fst (parseMountStatsNFS truncFraction
      (NewScanner [''opts: rw'', ''age: 9223372037''] None) ''1.1'') =
      Err (InvalidDuration ''9223372037s'')"
    by simp
  from age_line_go_duration [OF p o fs(1,2)] nd fs(3)
  have c3: "fst (parseMountStatsNFS truncFraction (NewScanner [''opts: rw'', ''age: soon''] None)
      ''1.1'') = Err (InvalidDuration ''soons'')"
    by simp
  from age_line_go_duration [OF p o fx(1,2), where sg = "[]" and ds = "''5''" and w = "''xs''"
      and r = "[]"] dx fx(3)
  have c4: "fst (parseMountStatsNFS truncFraction (NewScanner [''opts: rw'', ''age: 5x''] None)
      ''1.1'') = Err (UnknownUnit ''xs'' ''5xs'')"
    by simp
  from age_line_go_duration [OF p o fe(1,2), where sg = "[]" and ds = "''1''" and w = "''e''"
      and r = "''3s''"] dx fe(3)
  have c5: "fst (parseMountStatsNFS truncFraction (NewScanner [''opts: rw'', ''age: 1e3''] None)
      ''1.1'') = Err (UnknownUnit ''e'' ''1e3s'')"
    by simp
  from a7 ab nd c1 c2 c3 c4 c5 show ?thesis
    by simp
qed

text \<open>
  C6 as stated fails: a second token that is not an integer is accepted when it is a
  duration once \<^verbatim>\<open>s\<close> is appended. The line \<^verbatim>\<open>age: 5m\<close> is parsed as \<^verbatim>\<open>5ms\<close> and
  stores an age of five milliseconds.
\<close>

theorem age_line_accepts_non_integer:
  "Atoi ''5m'' = Inl (NumError ''5m'' ErrSyntax) \<and>
   fst (parseMountStatsNFS truncFraction (NewScanner [''age: 5m''] None) ''1.1'') =
     Ok ((newStats ''1.1'')\<lparr>Age := 5 * Millisecond\<rparr>)"
  by (simp add: driver_eval scanner_eval Fields_eval decoder_eval)

subsection \<open>Signed tokens\<close>

lemma nths_upt: "length ns = n \<Longrightarrow> map ((!) ns) [0..<n] = ns"
  by (auto simp: map_nth)

lemma bytes_decoded:
  assumes "length ss = 8" and "map Atoi ss = map Inr ns"
  shows "\<exists>b. parseNFSBytesStats ss = Ok b \<and> bytesFields b = ns"
proof -
  from assms(2) have al: "atoiLoop ss = Inr ns"
    by (simp add: atoiLoop_Inr_iff)
  with assms(1) have len: "length ns = 8"
    using atoiLoop_length by fastforce
  from nths_upt [OF len] have "[ns ! 0, ns ! 1, ns ! 2, ns ! 3, ns ! 4, ns ! 5, ns ! 6, ns ! 7] = ns"
    by (simp add: upt_rec eval_nat_numeral)
  with assms(1) al len show ?thesis
    by (simp add: parseNFSBytesStats_def fieldBytesLen_def checked_upt bytesFields_def)
qed

lemma events_decoded:
  assumes "length ss = 27" and "map Atoi ss = map Inr ns"
  shows "\<exists>e. parseNFSEventsStats ss = Ok e \<and> eventsFields e = ns"
proof -
  from assms(2) have al: "atoiLoop ss = Inr ns"
    by (simp add: atoiLoop_Inr_iff)
  with assms(1) have len: "length ns = 27"
    using atoiLoop_length by fastforce
  from assms(1) al len have "parseNFSEventsStats ss = Ok
     \<lparr>InodeRevalidate = ns ! 0, DnodeRevalidate = ns ! 1, DataInvalidate = ns ! 2,
      AttributeInvalidate = ns ! 3, VFSOpen = ns ! 4, VFSLookup = ns ! 5,
      VFSAccess = ns ! 6, VFSUpdatePage = ns ! 7, VFSReadPage = ns ! 8,
      VFSReadPages = ns ! 9, VFSWritePage = ns ! 10, VFSWritePages = ns ! 11,
      VFSGetdents = ns ! 12, VFSSetattr = ns ! 13, VFSFlush = ns ! 14,
      VFSFsync = ns ! 15, VFSLock = ns ! 16, VFSFileRelease = ns ! 17,
      CongestionWait = ns ! 18, Truncation = ns ! 19, WriteExtension = ns ! 20,
      SillyRename = ns ! 21, ShortRead = ns ! 22, ShortWrite = ns ! 23,
      JukeboxDelay = ns ! 24, PNFSRead = ns ! 25, PNFSWrite = ns ! 26\<rparr>"
    by (simp add: parseNFSEventsStats_def fieldEventsLen_def checked_upt)
  moreover from nths_upt [OF len] have "eventsFields
     \<lparr>InodeRevalidate = ns ! 0, DnodeRevalidate = ns ! 1, DataInvalidate = ns ! 2,
      AttributeInvalidate = ns ! 3, VFSOpen = ns ! 4, VFSLookup = ns ! 5,
      VFSAccess = ns ! 6, VFSUpdatePage = ns ! 7, VFSReadPage = ns ! 8,
      VFSReadPages = ns ! 9, VFSWritePage = ns ! 10, VFSWritePages = ns ! 11,
      VFSGetdents = ns ! 12, VFSSetattr = ns ! 13, VFSFlush = ns ! 14,
      VFSFsync = ns ! 15, VFSLock = ns ! 16, VFSFileRelease = ns ! 17,
      CongestionWait = ns ! 18, Truncation = ns ! 19, WriteExtension = ns ! 20,
      SillyRename = ns ! 21, ShortRead = ns ! 22, ShortWrite = ns ! 23,
      JukeboxDelay = ns ! 24, PNFSRead = ns ! 25, PNFSWrite = ns ! 26\<rparr> = ns"
    by (simp add: eventsFields_def upt_rec eval_nat_numeral)
  ultimately show ?thesis
    by blast
qed

lemma transport_decoded:
  assumes "length ss = 13" and "map Atoi ss = map Inr ns"
  shows "\<exists>t. parseNFSTransportStats ss ''1.1'' = Ok t \<and>
    transportFields t = ns[4 := mulDuration (ns ! 4) Second]"
proof -
  from assms(2) have al: "atoiLoop ss = Inr ns"
    by (simp add: atoiLoop_Inr_iff)
  with assms(1) have len: "length ns = 13"
    using atoiLoop_length by fastforce
  then obtain n0 n1 n2 n3 n4 n5 n6 n7 n8 n9 na nb nc
    where ns: "ns = [n0, n1, n2, n3, n4, n5, n6, n7, n8, n9, na, nb, nc]"
    by (auto simp: eval_nat_numeral length_Suc_conv)
  from assms(1) al show ?thesis
    by (simp add: parseNFSTransportStats_def statVersion10_def statVersion11_def
        fieldTransport10Len_def fieldTransport11Len_def checked_upt transportFields_def ns)
qed

lemma nth_of_tokens:
  "map Atoi ss = map Inr ns \<Longrightarrow> i < length ss \<Longrightarrow> Atoi (ss ! i) = Inr (ns ! i)"
proof -
  assume m: "map Atoi ss = map Inr ns" and i: "i < length ss"
  have "length ns = length ss"
    using arg_cong [OF m, of length] by simp
  with i have "map Inr ns ! i = (Inr (ns ! i) :: error + int)"
    by simp
  moreover from i have "map Atoi ss ! i = Atoi (ss ! i)"
    by simp
  ultimately show ?thesis
    using m by simp
qed

lemma op_decoded:
  assumes "opDecoded ss r" and "i < 8" and "Atoi (ss ! Suc i) = Inr n"
  shows "opFields r ! i = (if i < 5 then n else mulDuration n Millisecond)"
proof -
  from assms(2) have "i \<in> set [0..<8]"
    by simp
  then have "i \<in> {0, 1, 2, 3, 4, 5, 6, 7}"
    by (simp add: upt_rec eval_nat_numeral)
  with assms(1,3) show ?thesis
    by (auto simp: opDecoded_def opFields_def eval_nat_numeral)
qed

lemma transport_v10_panics:
  assumes "length ss = 10" and "map Atoi ss = map Inr ns"
  shows "parseNFSTransportStats ss ''1.0'' = Panic (IndexOutOfRange 10 10)"
proof -
  from assms(2) have al: "atoiLoop ss = Inr ns"
    by (simp add: atoiLoop_Inr_iff)
  with assms(1) have "length ns = 10"
    using atoiLoop_length by fastforce
  with assms(1) al show ?thesis
    by (simp add: parseNFSTransportStats_def statVersion10_def statVersion11_def
        fieldTransport10Len_def fieldTransport11Len_def checked_upt)
qed

lemma transport_v10_never_Ok: "parseNFSTransportStats ss ''1.0'' \<noteq> Ok t"
proof (cases "length ss = 10")
  case False
  then show ?thesis
    by (simp add: parseNFSTransportStats_def statVersion10_def statVersion11_def
        fieldTransport10Len_def)
next
  case True
  show ?thesis
  proof (cases "atoiLoop ss")
    case (Inl e)
    with True show ?thesis
      by (simp add: parseNFSTransportStats_def statVersion10_def statVersion11_def
          fieldTransport10Len_def fieldTransport11Len_def)
  next
    case (Inr ns)
    then have "map Atoi ss = map Inr ns"
      by (simp add: atoiLoop_Inr_iff)
    from transport_v10_panics [OF True this] show ?thesis
      by simp
  qed
qed

text \<open>
  C9. Let a token be a minus sign followed by decimal digits of a value \<open>d\<close> with
  \<open>0 < d \<le> 2^63\<close>. \<^verbatim>\<open>Atoi\<close> accepts it with the value \<open>- d\<close>. Wherever it stands among the
  integer tokens of a bytes, events or per-operation line, or of a transport line of version
  \<^verbatim>\<open>1.1\<close>, the decoder succeeds and the field of its position holds \<open>- d\<close>, or \<open>- d\<close>
  multiplied by \<^verbatim>\<open>time.Second\<close> (the idle time) or \<^verbatim>\<open>time.Millisecond\<close> (the three
  per-operation durations), which is the negative duration of \<open>d\<close> seconds for
  \<open>d \<le> 9223372036\<close> and of \<open>d\<close> milliseconds for \<open>d \<le> 9223372036854\<close>. The claim does
  not hold of the transport decoder at version \<^verbatim>\<open>1.0\<close>: there it stores no token at all.
  Ten integer tokens, signed or not, make it panic at the read \<^verbatim>\<open>ns[10]\<close>, and no token
  list gives a record.
\<close>

theorem signed_tokens_stored_except_transport_v10:
  assumes "ds \<noteq> []" and "list_all isDigit ds" and "0 < decimal ds" and "decimal ds \<le> 2 ^ 63"
  shows "Atoi (CHR ''-'' # ds) = Inr (- decimal ds) \<and>
    (length bs = 8 \<and> map Atoi bs = map Inr bn \<and> i < 8 \<and> bs ! i = CHR ''-'' # ds \<longrightarrow>
       (\<exists>b. parseNFSBytesStats bs = Ok b \<and> bytesFields b ! i = - decimal ds)) \<and>
    (length es = 27 \<and> map Atoi es = map Inr en \<and> j < 27 \<and> es ! j = CHR ''-'' # ds \<longrightarrow>
       (\<exists>e. parseNFSEventsStats es = Ok e \<and> eventsFields e ! j = - decimal ds)) \<and>
    (length ts = 13 \<and> map Atoi ts = map Inr tn \<and> k < 13 \<and> ts ! k = CHR ''-'' # ds \<longrightarrow>
       (\<exists>t. parseNFSTransportStats ts ''1.1'' = Ok t \<and>
          transportFields t ! k =
            (if k = 4 then mulDuration (- decimal ds) Second else - decimal ds))) \<and>
    (length us = 10 \<and> map Atoi us = map Inr un \<longrightarrow>
       parseNFSTransportStats us ''1.0'' = Panic (IndexOutOfRange 10 10)) \<and>
    parseNFSTransportStats vs ''1.0'' \<noteq> Ok t0 \<and>
    (Scan s = (Some l, s1) \<and> opLine l \<and> m < 8 \<and> Fields l ! Suc m = CHR ''-'' # ds \<longrightarrow>
       (\<exists>r. opsLoop s ops = opsLoop s1 (ops @ [r]) \<and>
          opFields r ! m =
            (if m < 5 then - decimal ds else mulDuration (- decimal ds) Millisecond))) \<and>
    (decimal ds \<le> 9223372036 \<longrightarrow>
       mulDuration (- decimal ds) Second = - (decimal ds * 1000000000)) \<and>
    (decimal ds \<le> 9223372036854 \<longrightarrow>
       mulDuration (- decimal ds) Millisecond = - (decimal ds * 1000000))"
proof -
  have neg: "Atoi (CHR ''-'' # ds) = Inr (- decimal ds)"
    by (rule Atoi_minus [OF assms(1,2,4)])
  have bytes: "\<exists>b. parseNFSBytesStats bs = Ok b \<and> bytesFields b ! i = - decimal ds"
    if "length bs = 8" "map Atoi bs = map Inr bn" "i < 8" "bs ! i = CHR ''-'' # ds"
  proof -
    from nth_of_tokens [OF that(2), of i] that neg have "bn ! i = - decimal ds"
      by simp
    with bytes_decoded [OF that(1,2)] show ?thesis
      by auto
  qed
  have events: "\<exists>e. parseNFSEventsStats es = Ok e \<and> eventsFields e ! j = - decimal ds"
    if "length es = 27" "map Atoi es = map Inr en" "j < 27" "es ! j = CHR ''-'' # ds"
  proof -
    from nth_of_tokens [OF that(2), of j] that neg have "en ! j = - decimal ds"
      by simp
    with events_decoded [OF that(1,2)] show ?thesis
      by auto
  qed
  have transport: "\<exists>t. parseNFSTransportStats ts ''1.1'' = Ok t \<and>
      transportFields t ! k = (if k = 4 then mulDuration (- decimal ds) Second else - decimal ds)"
    if "length ts = 13" "map Atoi ts = map Inr tn" "k < 13" "ts ! k = CHR ''-'' # ds"
  proof -
    from nth_of_tokens [OF that(2), of k] that neg have v: "tn ! k = - decimal ds"
      by simp
    have "length tn = length ts"
      using arg_cong [OF that(2), of length] by simp
    with transport_decoded [OF that(1,2)] v that(1,3) show ?thesis
      by (auto simp: nth_list_update)
  qed
  have ops: "\<exists>r. opsLoop s ops = opsLoop s1 (ops @ [r]) \<and>
      opFields r ! m = (if m < 5 then - decimal ds else mulDuration (- decimal ds) Millisecond)"
    if "Scan s = (Some l, s1)" "opLine l" "m < 8" "Fields l ! Suc m = CHR ''-'' # ds"
  proof -
    from opsLoop_line [OF that(1,2), of ops] obtain r
      where r: "opDecoded (Fields l) r" and step: "opsLoop s ops = opsLoop s1 (ops @ [r])"
      by blast
    from op_decoded [OF r that(3), of "- decimal ds"] that(4) neg step show ?thesis
      by auto
  qed
  have sec: "mulDuration (- decimal ds) Second = - (decimal ds * 1000000000)"
    if "decimal ds \<le> 9223372036"
  proof -
    from that assms(3) have "- 9223372036854775808 \<le> - decimal ds * 1000000000"
      and "- decimal ds * 1000000000 < 9223372036854775808"
      by linarith+
    then show ?thesis
      by (simp add: mulDuration_def Second_def wrap64_id)
  qed
  have ms: "mulDuration (- decimal ds) Millisecond = - (decimal ds * 1000000)"
    if "decimal ds \<le> 9223372036854"
  proof -
    from that assms(3) have "- 9223372036854775808 \<le> - decimal ds * 1000000"
      and "- decimal ds * 1000000 < 9223372036854775808"
      by linarith+
    then show ?thesis
      by (simp add: mulDuration_def Millisecond_def wrap64_id)
  qed
  have v10: "parseNFSTransportStats us ''1.0'' = Panic (IndexOutOfRange 10 10)"
    if "length us = 10" "map Atoi us = map Inr un"
    using that by (rule transport_v10_panics)
  have never: "parseNFSTransportStats vs ''1.0'' \<noteq> Ok t0"
    by (rule transport_v10_never_Ok)
  show ?thesis
    apply (intro conjI impI)
           apply (rule neg)
          apply (elim conjE, erule (3) bytes)
         apply (elim conjE, erule (3) events)
        apply (elim conjE, erule (3) transport)
       apply (elim conjE, erule (1) v10)
      apply (rule never)
     apply (elim conjE, erule (3) ops)
    apply (erule sec)
   apply (erule ms)
  done
qed

theorem signed_tokens_stored_except_transport_v10_witness:
  "Atoi ''-5'' = Inr (- 5) \<and>
   (\<exists>b. parseNFSBytesStats [''260'', ''-5'', ''13'', ''0'', ''260'', ''48'', ''7'', ''8''] = Ok b \<and>
      Write b = - 5) \<and>
   (\<exists>e. parseNFSEventsStats (replicate 26 ''0'' @ [''-5'']) = Ok e \<and> PNFSWrite e = - 5) \<and>
   (\<exists>t. parseNFSTransportStats
          [''832'', ''0'', ''1'', ''0'', ''-5'', ''6428'', ''6428'', ''0'', ''12154'', ''0'', ''24'',
           ''26'', ''5726''] ''1.1'' = Ok t \<and>
      IdleTime t = - (5 * Second)) \<and>
   parseNFSTransportStats
     [''832'', ''0'', ''1'', ''0'', ''-5'', ''6428'', ''6428'', ''0'', ''12154'', ''0''] ''1.0'' =
     Panic (IndexOutOfRange 10 10) \<and>
   (\<exists>r. fst (parseNFSOperationStats (NewScanner [''WRITE: 3 3 0 560 -5 -5 1 2''] None)) =
          ([r], None) \<and>
      BytesReceived r = - 5 \<and> CumulativeQueueTime r = - (5 * Millisecond))"
proof -
  define bs where "bs = [''260'', ''-5'', ''13'', ''0'', ''260'', ''48'', ''7'', ''8'']"
  define bn :: "int list" where "bn = [260, - 5, 13, 0, 260, 48, 7, 8]"
  define es where "es = replicate 26 ''0'' @ [''-5'']"
  define en :: "int list" where "en = replicate 26 0 @ [- 5]"
  define ts where "ts = [''832'', ''0'', ''1'', ''0'', ''-5'', ''6428'', ''6428'', ''0'', ''12154'',
    ''0'', ''24'', ''26'', ''5726'']"
  define tn :: "int list" where "tn = [832, 0, 1, 0, - 5, 6428, 6428, 0, 12154, 0, 24, 26, 5726]"
  define us where "us = [''832'', ''0'', ''1'', ''0'', ''-5'', ''6428'', ''6428'', ''0'', ''12154'',
    ''0'']"
  define un :: "int list" where "un = [832, 0, 1, 0, - 5, 6428, 6428, 0, 12154, 0]"
  define l where "l = ''WRITE: 3 3 0 560 -5 -5 1 2''"
  define s where "s = NewScanner [l] None"
  define s1 where "s1 = \<lparr>pending = [], final = (None :: string option), err = (None :: string option)\<rparr>"
  have d: "''5'' \<noteq> []" "list_all isDigit ''5''" "0 < decimal ''5''" "decimal ''5'' \<le> 2 ^ 63"
    and d5: "decimal ''5'' = 5"
    by (simp_all add: isDigit_def decimal_def digitVal_def)
  have hb: "length bs = 8 \<and> map Atoi bs = map Inr bn \<and> (1 :: nat) < 8 \<and> bs ! 1 = CHR ''-'' # ''5''"
    by (simp add: bs_def bn_def Atoi_eval)
  have he: "length es = 27 \<and> map Atoi es = map Inr en \<and> (26 :: nat) < 27 \<and>
      es ! 26 = CHR ''-'' # ''5''"
    by (simp add: es_def en_def Atoi_eval nth_append)
  have ht: "length ts = 13 \<and> map Atoi ts = map Inr tn \<and> (4 :: nat) < 13 \<and> ts ! 4 = CHR ''-'' # ''5''"
    by (simp add: ts_def tn_def Atoi_eval)
  have hu: "length us = 10 \<and> map Atoi us = map Inr un"
    by (simp add: us_def un_def Atoi_eval)
  have fl: "length (Fields l) = 9" "Fields l ! Suc 4 = CHR ''-'' # ''5''"
    "Fields l ! Suc 5 = CHR ''-'' # ''5''" "atoiLoop (tl (Fields l)) \<noteq> Inl e" for e
    by (simp_all add: l_def Fields_eval Atoi_eval)
  then have ol: "opLine l"
    by (auto simp: opLine_def split: sum.splits)
  have sc: "Scan s = (Some l, s1)"
    by (simp add: s_def s1_def scanner_eval)
  have fin: "opsLoop s1 ops = ((ops, None), s1)" for ops
    by (subst opsLoop.simps) (simp add: s1_def scanner_eval)
  note thm4 = signed_tokens_stored_except_transport_v10 [OF d, where bs = bs and bn = bn and i = 1 and es = es
      and en = en and j = 26 and ts = ts and tn = tn and k = 4 and s = s and l = l
      and ?s1.0 = s1 and m = 4 and ops = "[]"
      and us = us and un = un and vs = us and ?t0.0 = zeroTransport]
  note thm5 = signed_tokens_stored_except_transport_v10 [OF d, where bs = bs and bn = bn and i = 1 and es = es
      and en = en and j = 26 and ts = ts and tn = tn and k = 4 and s = s and l = l
      and ?s1.0 = s1 and m = 5 and ops = "[]"
      and us = us and un = un and vs = us and ?t0.0 = zeroTransport]
  from thm4 hu
  have c0: "parseNFSTransportStats us ''1.0'' = Panic (IndexOutOfRange 10 10)"
    by blast
  from thm4 hb he ht sc ol fl(2)
  have c4: "Atoi ''-5'' = Inr (- 5) \<and>
      (\<exists>b. parseNFSBytesStats bs = Ok b \<and> bytesFields b ! 1 = - 5) \<and>
      (\<exists>e. parseNFSEventsStats es = Ok e \<and> eventsFields e ! 26 = - 5) \<and>
      (\<exists>t. parseNFSTransportStats ts ''1.1'' = Ok t \<and>
         transportFields t ! 4 = mulDuration (- 5) Second) \<and>
      (\<exists>r. opsLoop s [] = opsLoop s1 [r] \<and> opFields r ! 4 = - 5) \<and>
      mulDuration (- 5) Second = - 5000000000"
    by (auto simp: d5)
  from thm5 sc ol fl(3)
  have c5: "(\<exists>r. opsLoop s [] = opsLoop s1 [r] \<and> opFields r ! 5 = mulDuration (- 5) Millisecond) \<and>
      mulDuration (- 5) Millisecond = - 5000000"
    by (auto simp: d5)
  from c4 have "\<exists>b. parseNFSBytesStats bs = Ok b \<and> Write b = - 5"
    by (auto simp: bytesFields_def)
  moreover from c4 have "\<exists>e. parseNFSEventsStats es = Ok e \<and> PNFSWrite e = - 5"
    by (auto simp: eventsFields_def)
  moreover from c4 have "\<exists>t. parseNFSTransportStats ts ''1.1'' = Ok t \<and>
      IdleTime t = - (5 * Second)"
    by (auto simp: transportFields_def Second_def)
  moreover have "\<exists>r. fst (parseNFSOperationStats s) = ([r], None) \<and>
      BytesReceived r = - 5 \<and> CumulativeQueueTime r = - (5 * Millisecond)"
  proof -
    from c4 obtain r where r: "opsLoop s [] = opsLoop s1 [r]" and r4: "opFields r ! 4 = - 5"
      by blast
    from c5 obtain r' where r': "opsLoop s [] = opsLoop s1 [r']"
      and r5: "opFields r' ! 5 = - 5000000"
      by auto
    from r r' fin have "r' = r"
      by simp
    with r r4 r5 fin show ?thesis
      by (auto simp: parseNFSOperationStats_def opFields_def Millisecond_def)
  qed
  moreover from c4 have "Atoi ''-5'' = Inr (- 5)"
    by simp
  ultimately show ?thesis
    using c0 by (simp add: bs_def es_def ts_def us_def s_def l_def)
qed

end
